theory Spec2Isabelle
  imports Complex_Main "HOL-Library.Word" "HOL-Library.Sublist"
begin

section \<open>Voice-activity segmentation of \<^verbatim>\<open>vspeech/recording.py\<close>\<close>

text \<open>
  The module reads fixed-size chunks from an input stream, groups them into intervals,
  classifies every interval by its loudness and cuts the stream into utterances.
  Python integers are modelled by \<open>int\<close> (and by \<open>nat\<close> where the value is a size). A
  Python float is modelled by the real number it stands for; additions and multiplications
  of floats round their result to the nearest double. The loop only concatenates byte
  strings and hands them to \<^verbatim>\<open>audioop.rms\<close>, so the model is parametric in the element type
  of a byte string; the program is the instance \<open>byte\<close>.
\<close>

subsection \<open>Double-precision arithmetic\<close>

text \<open>The integer nearest to \<open>y\<close>, the even one of the two when \<open>y\<close> lies half-way.\<close>

definition round_half_even :: "real \<Rightarrow> int" where
  "round_half_even y =
     (let f = \<lfloor>y\<rfloor>; d = y - real_of_int f
      in if d < 1 / 2 then f
         else if 1 / 2 < d then f + 1
         else if even f then f else f + 1)"

text \<open>
  The IEEE 754 binary64 number nearest to \<open>x\<close>, ties to even: 53 significant bits, the
  exponent not below that of the subnormal numbers. The exponent is not bounded above: a
  result of magnitude \<open>2^1024\<close> or more stands for an infinity, and compares with every
  finite double as the infinity does.
\<close>

definition round_double :: "real \<Rightarrow> real" where
  "round_double x =
     (if x = 0 then 0
      else
        (let e = max \<lfloor>log 2 \<bar>x\<bar>\<rfloor> (- 1022)
         in real_of_int (round_half_even (x * 2 powr (52 - real_of_int e)))
              * 2 powr (real_of_int e - 52)))"

subsection \<open>Configuration and loudness\<close>

type_synonym byte = "8 word"

text \<open>
  The fields of \<^verbatim>\<open>RecordingConfig\<close> that the segmentation loop reads. The last three are
  floats: finite doubles.
\<close>

record config =
  chunk :: int
  rate :: int
  record_interval_sec :: real
  silence_threshold :: real
  max_recording_sec :: real

text \<open>The float returned by \<^verbatim>\<open>get_dbfs\<close>: \<^verbatim>\<open>float("-inf")\<close> or a finite number.\<close>

datatype dbfs = NegInf | Finite real

text \<open>
  \<^verbatim>\<open>get_dbfs\<close> (lines 57-62). \<^verbatim>\<open>audioop.rms\<close> belongs to the Python standard library, not
  to this module: it is the parameter \<open>rms\<close>, and \<open>None\<close> is the \<^verbatim>\<open>audioop.error\<close> that it
  raises, which leaves \<^verbatim>\<open>get_dbfs\<close> uncaught. Python's \<^verbatim>\<open>log(x, 10)\<close> is \<open>log 10 x\<close>; the
  quotient, the logarithm and the product of line 62 are the exact ones, where the code
  has those of double precision and of the C library. The two agree on the concrete inputs
  used below, whose RMS is zero or full scale: the result is minus infinity or \<^verbatim>\<open>0.0\<close>.
\<close>

definition get_dbfs :: "('a list \<Rightarrow> nat \<Rightarrow> nat option) \<Rightarrow> 'a list \<Rightarrow> nat \<Rightarrow> dbfs option" where
  "get_dbfs rms interval_frames sample_width =
     (case rms interval_frames sample_width of
        None \<Rightarrow> None
      | Some r \<Rightarrow>
          (let max_possible_val = (2 ^ (sample_width * 8)) / (2::real)
           in if r = 0 then Some NegInf
              else Some (Finite (20 * log 10 (real r / max_possible_val)))))"

text \<open>The comparison \<^verbatim>\<open>approx_max_amp > config.silence_threshold\<close> of line 80.\<close>

fun dbfs_gt :: "dbfs \<Rightarrow> real \<Rightarrow> bool" where
  "dbfs_gt NegInf t = False"
| "dbfs_gt (Finite x) t = (t < x)"

subsection \<open>A reference model of \<^verbatim>\<open>audioop.rms\<close>\<close>

text \<open>
  Used for concrete inputs only; it follows \<^verbatim>\<open>audioop_rms_impl\<close> of CPython on a
  little-endian machine. The call raises \<^verbatim>\<open>audioop.error\<close> when the width is not 1, 2, 3
  or 4 and when the fragment is not a whole number of samples. Otherwise the fragment is
  cut into samples of \<open>width\<close> bytes, each read as a two's complement integer; their
  squares are summed in double precision, and the result is the square root of the mean,
  computed in double precision and truncated to an integer; it is 0 for the empty
  fragment.
\<close>

definition le_unsigned :: "byte list \<Rightarrow> int" where
  "le_unsigned bs = foldr (\<lambda>b acc. uint b + 256 * acc) bs 0"

definition getrawsample :: "byte list \<Rightarrow> int" where
  "getrawsample bs =
     (let v = le_unsigned bs
      in if 2 ^ (8 * length bs - 1) \<le> v then v - 2 ^ (8 * length bs) else v)"

fun split_samples :: "nat \<Rightarrow> byte list \<Rightarrow> byte list list" where
  "split_samples w xs =
     (if w = 0 \<or> length xs < w then []
      else take w xs # split_samples w (drop w xs))"

declare split_samples.simps [simp del]

definition sum_squares :: "nat \<Rightarrow> byte list \<Rightarrow> real" where
  "sum_squares width fragment =
     foldl (\<lambda>acc s. round_double
                      (acc + round_double (real_of_int (getrawsample s)
                                             * real_of_int (getrawsample s))))
       0 (split_samples width fragment)"

definition audioop_rms :: "byte list \<Rightarrow> nat \<Rightarrow> nat option" where
  "audioop_rms fragment width =
     (if width < 1 \<or> 4 < width then None
      else if length fragment mod width \<noteq> 0 then None
      else if length fragment = 0 then Some 0
      else Some (nat \<lfloor>round_double
                         (sqrt (round_double
                                  (sum_squares width fragment
                                     / real (length fragment div width))))\<rfloor>))"

subsection \<open>The segmentation loop\<close>

datatype status = Waiting | Speaking | Stopped

text \<open>The local variables of \<^verbatim>\<open>recording_task_loop\<close> (lines 68-73).\<close>

record 'a loop_state =
  interval_frame_count :: int
  interval_frames :: "'a list"
  speaking_frames :: "'a list"
  last_interval_frames :: "'a list"
  total_speaking_seconds :: real
  status :: status

definition init_state :: "'a loop_state" where
  "init_state =
     \<lparr>interval_frame_count = 0, interval_frames = [], speaking_frames = [],
      last_interval_frames = [], total_speaking_seconds = 0, status = Waiting\<rparr>"

text \<open>
  Lines 81-101: the decision taken on a completed interval. The first component is the
  value yielded, if the branch of line 96 is taken. Lines 87 and 93 add two floats.
\<close>

definition decide :: "config \<Rightarrow> bool \<Rightarrow> 'a loop_state \<Rightarrow> 'a list option \<times> 'a loop_state" where
  "decide cfg speaking st =
     (if status st = Waiting \<and> speaking then
        (None, st\<lparr>speaking_frames :=
                     speaking_frames st @ last_interval_frames st @ interval_frames st,
                  status := Speaking\<rparr>)
      else if status st = Speaking then
        (let st1 = st\<lparr>speaking_frames := speaking_frames st @ interval_frames st,
                      total_speaking_seconds :=
                        round_double (total_speaking_seconds st + record_interval_sec cfg)\<rparr>
         in if \<not> speaking \<or> max_recording_sec cfg < total_speaking_seconds st1
            then (None, st1\<lparr>status := Stopped\<rparr>)
            else (None, st1))
      else if status st = Stopped then
        (let st1 = st\<lparr>speaking_frames := speaking_frames st @ interval_frames st,
                      total_speaking_seconds :=
                        round_double (total_speaking_seconds st + record_interval_sec cfg)\<rparr>
         in if \<not> speaking \<or> max_recording_sec cfg < total_speaking_seconds st1
            then (Some (speaking_frames st1),
                  st1\<lparr>status := Waiting, speaking_frames := [], interval_frames := []\<rparr>)
            else if speaking then (None, st1\<lparr>status := Speaking\<rparr>)
            else (None, st1))
      else (None, st))"

text \<open>
  Lines 80-104: what happens once the interval is complete, given the loudness computed at
  line 78. The state passed in already holds the interval's bytes in \<open>interval_frames\<close>.
\<close>

definition complete_interval ::
  "config \<Rightarrow> dbfs \<Rightarrow> 'a loop_state \<Rightarrow> 'a list option \<times> 'a loop_state"
where
  "complete_interval cfg approx_max_amp st =
     (let speaking = dbfs_gt approx_max_amp (silence_threshold cfg);
          (out, st1) = decide cfg speaking st
      in (out, st1\<lparr>last_interval_frames := interval_frames st1,
                   interval_frame_count := 0,
                   interval_frames := []\<rparr>))"

text \<open>
  The product \<^verbatim>\<open>config.rate * config.record_interval_sec\<close> of line 79: the integer is
  converted to a float and the two floats are multiplied.
\<close>

definition interval_target :: "config \<Rightarrow> real" where
  "interval_target cfg =
     round_double (round_double (real_of_int (rate cfg)) * record_interval_sec cfg)"

text \<open>
  Lines 75-104: one iteration of the \<^verbatim>\<open>while\<close> loop on the chunk \<open>in_data\<close>. The result is
  \<open>None\<close> when line 78 raises; otherwise the value yielded, if any, and the variables after
  the iteration. Line 78 is executed on every chunk, on the bytes of the interval so far.
\<close>

definition loop_body ::
  "('a list \<Rightarrow> nat \<Rightarrow> nat option) \<Rightarrow> config \<Rightarrow> nat \<Rightarrow> 'a loop_state \<Rightarrow> 'a list
     \<Rightarrow> ('a list option \<times> 'a loop_state) option"
where
  "loop_body rms cfg sample_width st in_data =
     (let st1 = st\<lparr>interval_frame_count := interval_frame_count st + chunk cfg,
                   interval_frames := interval_frames st @ in_data\<rparr>
      in case get_dbfs rms (interval_frames st1) sample_width of
           None \<Rightarrow> None
         | Some approx_max_amp \<Rightarrow>
             if interval_target cfg \<le> real_of_int (interval_frame_count st1)
             then Some (complete_interval cfg approx_max_amp st1)
             else Some (None, st1))"

text \<open>
  The generator run on the chunks that \<^verbatim>\<open>stream.read\<close> returns while the stream is
  active: the utterances yielded, in order, and the variables at the end, or \<open>None\<close> in
  their place when the generator ended by raising.
\<close>

fun task_loop ::
  "('a list \<Rightarrow> nat \<Rightarrow> nat option) \<Rightarrow> config \<Rightarrow> nat \<Rightarrow> 'a loop_state \<Rightarrow> 'a list list
     \<Rightarrow> 'a list list \<times> 'a loop_state option"
where
  "task_loop rms cfg sample_width st [] = ([], Some st)"
| "task_loop rms cfg sample_width st (in_data # rest) =
     (case loop_body rms cfg sample_width st in_data of
        None \<Rightarrow> ([], None)
      | Some (out, st1) \<Rightarrow>
          (case task_loop rms cfg sample_width st1 rest of
             (outs, fin) \<Rightarrow> ((case out of None \<Rightarrow> [] | Some u \<Rightarrow> [u]) @ outs, fin)))"

definition recording_task_loop ::
  "('a list \<Rightarrow> nat \<Rightarrow> nat option) \<Rightarrow> config \<Rightarrow> nat \<Rightarrow> 'a list list \<Rightarrow> 'a list list"
where
  "recording_task_loop rms cfg sample_width chunks =
     fst (task_loop rms cfg sample_width init_state chunks)"

subsection \<open>Intervals\<close>

text \<open>
  The chunks \<open>cs\<close> make up exactly one interval: read into an empty accumulator, the last
  of them, and none before it, brings the frame count to the product of line 79.
\<close>

definition one_interval :: "config \<Rightarrow> 'a list list \<Rightarrow> bool" where
  "one_interval cfg cs \<longleftrightarrow>
     0 < chunk cfg \<and> cs \<noteq> [] \<and>
     real_of_int (int (length cs - 1) * chunk cfg) < interval_target cfg \<and>
     interval_target cfg \<le> real_of_int (int (length cs) * chunk cfg)"

text \<open>
  Line 78 raises on none of the chunks \<open>cs\<close>, read one after the other into an accumulator
  that holds \<open>acc\<close>.
\<close>

fun readable_from :: "('a list \<Rightarrow> nat \<Rightarrow> nat option) \<Rightarrow> nat \<Rightarrow> 'a list \<Rightarrow> 'a list list \<Rightarrow> bool"
where
  "readable_from rms sample_width acc [] = True"
| "readable_from rms sample_width acc (c # cs) =
     (rms (acc @ c) sample_width \<noteq> None \<and> readable_from rms sample_width (acc @ c) cs)"

definition readable :: "('a list \<Rightarrow> nat \<Rightarrow> nat option) \<Rightarrow> nat \<Rightarrow> 'a list list \<Rightarrow> bool" where
  "readable rms sample_width cs = readable_from rms sample_width [] cs"

text \<open>The classification of line 80 for an interval with the bytes \<open>bs\<close>.\<close>

definition loud :: "('a list \<Rightarrow> nat \<Rightarrow> nat option) \<Rightarrow> config \<Rightarrow> nat \<Rightarrow> 'a list \<Rightarrow> bool" where
  "loud rms cfg sample_width bs =
     (case get_dbfs rms bs sample_width of
        None \<Rightarrow> False
      | Some approx_max_amp \<Rightarrow> dbfs_gt approx_max_amp (silence_threshold cfg))"

text \<open>
  Lines 81-104 for an interval with the bytes \<open>bs\<close> that line 80 classifies as \<open>speaking\<close>,
  and their iteration over intervals that line 78 accepts.
\<close>

definition tick :: "config \<Rightarrow> bool \<Rightarrow> 'a loop_state \<Rightarrow> 'a list \<Rightarrow> 'a list option \<times> 'a loop_state"
where
  "tick cfg speaking st bs =
     (case decide cfg speaking (st\<lparr>interval_frames := bs\<rparr>) of
        (out, st1) \<Rightarrow>
          (out, st1\<lparr>last_interval_frames := interval_frames st1,
                     interval_frame_count := 0, interval_frames := []\<rparr>))"

fun ticks ::
  "('a list \<Rightarrow> nat \<Rightarrow> nat option) \<Rightarrow> config \<Rightarrow> nat \<Rightarrow> 'a loop_state \<Rightarrow> 'a list list
     \<Rightarrow> 'a list list \<times> 'a loop_state"
where
  "ticks rms cfg sample_width st [] = ([], st)"
| "ticks rms cfg sample_width st (bs # rest) =
     (case tick cfg (loud rms cfg sample_width bs) st bs of
        (out, st1) \<Rightarrow>
          (case ticks rms cfg sample_width st1 rest of
             (outs, st2) \<Rightarrow> ((case out of None \<Rightarrow> [] | Some u \<Rightarrow> [u]) @ outs, st2)))"

text \<open>
  The duration after \<open>k\<close> more executions of line 87 or 93, from the duration \<open>t\<close>:
  \<open>k\<close> additions of \<^verbatim>\<open>config.record_interval_sec\<close>, each rounded.
\<close>

fun duration_after :: "config \<Rightarrow> nat \<Rightarrow> real \<Rightarrow> real" where
  "duration_after cfg 0 t = t"
| "duration_after cfg (Suc k) t =
     duration_after cfg k (round_double (t + record_interval_sec cfg))"

subsection \<open>The worker\<close>

text \<open>
  \<^verbatim>\<open>recording_worker\<close> (lines 107-141) talks to four collaborators: the device stream, the
  resume gate, the output queue and the scheduler that may cancel the task while it is
  suspended. Their behaviour is the input of the model. One \<open>read_event\<close> says what the
  next test of \<^verbatim>\<open>stream.is_active()\<close> and the read after it do: the stream is no longer
  active; or the task is cancelled while it awaits the read; or the read returns
  \<open>in_data\<close>, together with what \<^verbatim>\<open>context.resume.is_set()\<close> answers and whether the
  queue has room, should the worker ask after this chunk.
\<close>

datatype 'a read_event = Inactive | ReadCancelled | ReadData "'a list" bool bool

text \<open>What the worker does, in program order.\<close>

datatype 'a event =
    StreamOpened
  | ChunkRead
  | Published "'a list"
  | PutFailed "'a list"
  | Discarded "'a list"
  | StreamClosed
  | CancelDelivered

text \<open>How the \<^verbatim>\<open>async for\<close> statement of lines 112-131 is left.\<close>

datatype loop_exit =
  Finished | Paused | CancelledInRead | QueueFull | AudioopError | Unfinished

text \<open>
  Lines 112-131 on the remaining read events. \<open>Unfinished\<close>: the events are used up and
  the task is still awaiting a read. A \<^verbatim>\<open>break\<close> leaves the generator suspended at its
  \<^verbatim>\<open>yield\<close>; \<^verbatim>\<open>put_nowait\<close> on a queue without room raises \<^verbatim>\<open>QueueFull\<close>; an error raised
  at line 78 leaves the generator and the \<^verbatim>\<open>async for\<close>.
\<close>

fun worker_session ::
  "('a list \<Rightarrow> nat \<Rightarrow> nat option) \<Rightarrow> config \<Rightarrow> nat \<Rightarrow> 'a loop_state \<Rightarrow> 'a read_event list
     \<Rightarrow> 'a event list \<times> loop_exit"
where
  "worker_session rms cfg sample_width st [] = ([], Unfinished)"
| "worker_session rms cfg sample_width st (Inactive # es) = ([], Finished)"
| "worker_session rms cfg sample_width st (ReadCancelled # es) =
     ([CancelDelivered], CancelledInRead)"
| "worker_session rms cfg sample_width st (ReadData in_data resume_set has_room # es) =
     (case loop_body rms cfg sample_width st in_data of
        None \<Rightarrow> ([ChunkRead], AudioopError)
      | Some (None, st1) \<Rightarrow>
          (case worker_session rms cfg sample_width st1 es of
             (tr, ex) \<Rightarrow> (ChunkRead # tr, ex))
      | Some (Some frames, st1) \<Rightarrow>
          if \<not> resume_set then ([ChunkRead, Discarded frames], Paused)
          else if \<not> has_room then ([ChunkRead, PutFailed frames], QueueFull)
          else (case worker_session rms cfg sample_width st1 es of
                  (tr, ex) \<Rightarrow> (ChunkRead # Published frames # tr, ex)))"

text \<open>
  One pass of the \<^verbatim>\<open>while True\<close> loop of the worker: whether \<^verbatim>\<open>open_input_stream\<close> finds
  the device (it raises \<^verbatim>\<open>TypeError\<close> otherwise), the read events of the stream it opens,
  and whether the task is cancelled while it awaits \<^verbatim>\<open>context.resume.wait()\<close>.
\<close>

record 'a session_env =
  device_found :: bool
  reads :: "'a read_event list"
  wait_cancelled :: bool

text \<open>
  How the worker ends: with the exception that leaves \<^verbatim>\<open>recording_worker\<close>, or still
  running when the described behaviour of the collaborators is used up. Only
  \<^verbatim>\<open>CancelledError\<close> is caught (lines 132 and 139), and it is raised again.
\<close>

datatype outcome =
  RaisedCancelledError | RaisedQueueFull | RaisedAudioopError | RaisedTypeError | StillRunning

fun recording_worker ::
  "('a list \<Rightarrow> nat \<Rightarrow> nat option) \<Rightarrow> config \<Rightarrow> nat \<Rightarrow> 'a session_env list
     \<Rightarrow> 'a event list \<times> outcome"
where
  "recording_worker rms cfg sample_width [] = ([], StillRunning)"
| "recording_worker rms cfg sample_width (env # envs) =
     (if \<not> device_found env then ([], RaisedTypeError)
      else
        (case worker_session rms cfg sample_width init_state (reads env) of
           (tr, CancelledInRead) \<Rightarrow> (StreamOpened # tr @ [StreamClosed], RaisedCancelledError)
         | (tr, QueueFull) \<Rightarrow> (StreamOpened # tr, RaisedQueueFull)
         | (tr, AudioopError) \<Rightarrow> (StreamOpened # tr, RaisedAudioopError)
         | (tr, Unfinished) \<Rightarrow> (StreamOpened # tr, StillRunning)
         | (tr, _) \<Rightarrow>
             if wait_cancelled env
             then (StreamOpened # tr @ [StreamClosed, CancelDelivered], RaisedCancelledError)
             else (case recording_worker rms cfg sample_width envs of
                     (tr1, oc) \<Rightarrow> (StreamOpened # tr @ [StreamClosed] @ tr1, oc))))"


subsection \<open>Where the bytes of an utterance come from\<close>

text \<open>
  The bytes that the loop holds and may still hand out: the utterance under construction,
  the lookback while it can still become a pre-roll (in the state waiting), and the
  interval under construction.
\<close>

definition held :: "'a loop_state \<Rightarrow> 'a list" where
  "held st =
     speaking_frames st
       @ (if status st = Waiting then last_interval_frames st else [])
       @ interval_frames st"

text \<open>Every byte of the stream labelled with its position in the stream, from \<open>n\<close> on.\<close>

fun tag_chunks :: "nat \<Rightarrow> 'a list list \<Rightarrow> ('a \<times> nat) list list" where
  "tag_chunks n [] = []"
| "tag_chunks n (c # cs) = zip c [n ..< n + length c] # tag_chunks (n + length c) cs"

text \<open>The variables of the loop with \<open>f\<close> applied to every byte.\<close>

definition map_state :: "('a \<Rightarrow> 'b) \<Rightarrow> 'a loop_state \<Rightarrow> 'b loop_state" where
  "map_state f st =
     \<lparr>interval_frame_count = interval_frame_count st,
      interval_frames = map f (interval_frames st),
      speaking_frames = map f (speaking_frames st),
      last_interval_frames = map f (last_interval_frames st),
      total_speaking_seconds = total_speaking_seconds st,
      status = status st\<rparr>"

subsection \<open>Concrete inputs\<close>

text \<open>
  The configuration of the end-to-end scenario, read one interval (1600 frames) at a time,
  with 16-bit mono audio: an interval of silence and an interval at full scale. The
  interval length is the double that Python reads \<^verbatim>\<open>0.1\<close> as.
\<close>

definition cfg_16k :: config where
  "cfg_16k = \<lparr>chunk = 1600, rate = 16000, record_interval_sec = round_double (1 / 10),
              silence_threshold = - 40, max_recording_sec = 5\<rparr>"

definition quiet_1600 :: "byte list" where
  "quiet_1600 = replicate 3200 0"

definition loud_1600 :: "byte list" where
  "loud_1600 = concat (replicate 1600 [0x00, 0x80])"

text \<open>
  A small configuration: ten frames per second, so that an interval of \<^verbatim>\<open>0.1\<close> seconds is
  one frame, read one frame at a time, and a cap of \<^verbatim>\<open>0.2\<close> seconds; the same with a cap of
  \<^verbatim>\<open>0.3\<close> seconds.
\<close>

definition cfg_small :: config where
  "cfg_small = \<lparr>chunk = 1, rate = 10, record_interval_sec = round_double (1 / 10),
                silence_threshold = - 40, max_recording_sec = round_double (2 / 10)\<rparr>"

definition cfg_cap03 :: config where
  "cfg_cap03 = \<lparr>chunk = 1, rate = 10, record_interval_sec = round_double (1 / 10),
                silence_threshold = - 40, max_recording_sec = round_double (3 / 10)\<rparr>"

text \<open>
  A configuration whose product of line 79 is rounded up: 100 frames per second and
  intervals of \<^verbatim>\<open>1.1\<close> seconds, read 110 frames at a time.
\<close>

definition cfg_110 :: config where
  "cfg_110 = \<lparr>chunk = 110, rate = 100, record_interval_sec = round_double (11 / 10),
              silence_threshold = - 40, max_recording_sec = 5\<rparr>"

definition quiet_frame :: "byte list" where
  "quiet_frame = [0x00, 0x00]"

definition loud_frame :: "byte list" where
  "loud_frame = [0x00, 0x80]"

section \<open>Properties\<close>

subsection \<open>Rounding to a double\<close>

lemma round_half_even_int: "round_half_even (real_of_int w) = w"
  by (simp add: round_half_even_def)

lemma round_double_0: "round_double 0 = 0"
  by (simp add: round_double_def)

lemma floor_log2_eq:
  assumes "2 powr real_of_int e \<le> \<bar>x\<bar>" and "\<bar>x\<bar> < 2 powr (real_of_int e + 1)"
  shows "\<lfloor>log 2 \<bar>x\<bar>\<rfloor> = e"
proof -
  have pos: "0 < \<bar>x\<bar>"
    using assms(1) by (smt (verit) powr_gt_zero)
  have "real_of_int e \<le> log 2 \<bar>x\<bar>"
    using assms(1) pos by (simp add: le_log_iff)
  moreover have "log 2 \<bar>x\<bar> < real_of_int e + 1"
    using assms(2) pos by (simp add: log_less_iff)
  ultimately show ?thesis by linarith
qed

lemma round_double_exponent:
  assumes "- 1022 \<le> e"
    and "2 powr real_of_int e \<le> \<bar>x\<bar>" and "\<bar>x\<bar> < 2 powr (real_of_int e + 1)"
  shows "round_double x =
           real_of_int (round_half_even (x * 2 powr (52 - real_of_int e)))
             * 2 powr (real_of_int e - 52)"
proof -
  have "x \<noteq> 0" using assms(2) by (smt (verit) powr_gt_zero)
  moreover have "max \<lfloor>log 2 \<bar>x\<bar>\<rfloor> (- 1022) = e"
    using floor_log2_eq [OF assms(2,3)] assms(1) by simp
  ultimately show ?thesis by (simp add: round_double_def Let_def)
qed

text \<open>
  How to compute the double nearest to \<open>x\<close> when \<open>n\<close> doublings bring \<open>x\<close> into the range
  of the 53-bit integers with the leading bit set.
\<close>

lemma round_double_scaled:
  assumes "n \<le> 1074"
    and "2 ^ 52 \<le> \<bar>x\<bar> * 2 ^ n" and "\<bar>x\<bar> * 2 ^ n < 2 ^ 53"
  shows "round_double x = real_of_int (round_half_even (x * 2 ^ n)) / 2 ^ n"
proof -
  define e :: int where "e = 52 - int n"
  have p: "2 powr real_of_int e = 2 ^ 52 / 2 ^ n"
    by (simp add: e_def powr_diff powr_realpow)
  have p1: "2 powr (real_of_int e + 1) = 2 ^ 53 / 2 ^ n"
    by (simp add: e_def powr_diff powr_add powr_realpow)
  have a: "2 powr real_of_int e \<le> \<bar>x\<bar>"
    unfolding p using assms(2) by (simp add: pos_divide_le_eq)
  have b: "\<bar>x\<bar> < 2 powr (real_of_int e + 1)"
    unfolding p1 using assms(3) by (simp add: pos_less_divide_eq)
  have c: "- 1022 \<le> e" using assms(1) by (simp add: e_def)
  have up: "2 powr (52 - real_of_int e) = 2 ^ n"
    by (simp add: e_def powr_realpow)
  have down: "2 powr (real_of_int e - 52) = 1 / 2 ^ n"
    by (simp add: e_def powr_minus powr_realpow divide_inverse)
  show ?thesis
    unfolding round_double_exponent [OF c a b] up down by simp
qed

text \<open>Integers below \<open>2^53\<close> in magnitude are doubles.\<close>

lemma round_double_int:
  assumes "\<bar>z\<bar> < 2 ^ 53"
  shows "round_double (real_of_int z) = real_of_int z"
proof (cases "z = 0")
  case True
  then show ?thesis by (simp add: round_double_0)
next
  case False
  define x where "x = real_of_int z"
  define e where "e = \<lfloor>log 2 \<bar>x\<bar>\<rfloor>"
  have x1: "1 \<le> \<bar>x\<bar>" using False by (simp add: x_def flip: of_int_abs)
  have x2: "\<bar>x\<bar> < 2 ^ 53"
    using assms unfolding x_def by (metis of_int_abs of_int_less_numeral_power_cancel_iff)
  have lo: "2 powr real_of_int e \<le> \<bar>x\<bar>"
    using x1 by (simp add: e_def flip: le_log_iff)
  have hi: "\<bar>x\<bar> < 2 powr (real_of_int e + 1)"
    using x1 by (simp add: e_def flip: log_less_iff)
  have e0: "0 \<le> e"
    using x1 by (simp add: e_def zero_le_log_cancel_iff)
  have "log 2 \<bar>x\<bar> < 53"
    using x1 x2 by (simp add: log_less_iff powr_realpow [symmetric] del: powr_realpow)
  then have e52: "e \<le> 52" by (simp add: e_def floor_le_iff)
  define k where "k = nat (52 - e)"
  have ek: "real_of_int e = 52 - real k" using e52 by (simp add: k_def)
  have up: "2 powr (52 - real_of_int e) = 2 ^ k"
    by (simp add: ek powr_realpow)
  have down: "2 powr (real_of_int e - 52) = 1 / 2 ^ k"
    by (simp add: ek powr_minus powr_realpow divide_inverse)
  have scaled: "x * 2 ^ k = real_of_int (z * 2 ^ k)" by (simp add: x_def)
  have "round_double x = real_of_int (round_half_even (x * 2 powr (52 - real_of_int e)))
             * 2 powr (real_of_int e - 52)"
    using e0 by (intro round_double_exponent lo hi) simp
  also have "\<dots> = x"
    unfolding up down scaled round_half_even_int by (simp add: x_def)
  finally show ?thesis by (simp add: x_def)
qed

lemma round_double_nat: "n < 2 ^ 53 \<Longrightarrow> round_double (real n) = real n"
  using round_double_int [of "int n"] by simp

subsection \<open>The doubles of the concrete inputs\<close>

text \<open>\<^verbatim>\<open>0.1\<close>, \<^verbatim>\<open>0.2\<close>, \<^verbatim>\<open>0.3\<close> and \<^verbatim>\<open>1.1\<close> as Python reads them.\<close>

lemma double_01: "round_double (1 / 10) = 3602879701896397 / 36028797018963968"
  by (subst round_double_scaled [where n = 56]) (simp_all add: round_half_even_def)

lemma double_02: "round_double (2 / 10) = 3602879701896397 / 18014398509481984"
  by (subst round_double_scaled [where n = 55]) (simp_all add: round_half_even_def)

lemma double_03: "round_double (3 / 10) = 5404319552844595 / 18014398509481984"
  by (subst round_double_scaled [where n = 54]) (simp_all add: round_half_even_def)

lemma double_11: "round_double (11 / 10) = 2476979795053773 / 2251799813685248"
  by (subst round_double_scaled [where n = 52]) (simp_all add: round_half_even_def)

text \<open>
  The sums \<^verbatim>\<open>0 + 0.1\<close>, \<^verbatim>\<open>0.1 + 0.1\<close>, ... of lines 87 and 93: \<^verbatim>\<open>0.1\<close>, \<^verbatim>\<open>0.2\<close>,
  \<^verbatim>\<open>0.30000000000000004\<close>, \<^verbatim>\<open>0.4\<close> and \<^verbatim>\<open>0.5\<close>.
\<close>

lemma sum_01: "round_double (0 + 3602879701896397 / 36028797018963968)
    = 3602879701896397 / 36028797018963968"
  by (subst round_double_scaled [where n = 56]) (simp_all add: round_half_even_def)

lemma sum_02:
  "round_double (3602879701896397 / 36028797018963968 + 3602879701896397 / 36028797018963968)
    = 3602879701896397 / 18014398509481984"
  by (subst round_double_scaled [where n = 55]) (simp_all add: round_half_even_def)

lemma sum_03:
  "round_double (3602879701896397 / 18014398509481984 + 3602879701896397 / 36028797018963968)
    = 1351079888211149 / 4503599627370496"
  by (subst round_double_scaled [where n = 54]) (simp_all add: round_half_even_def)

lemma sum_04:
  "round_double (1351079888211149 / 4503599627370496 + 3602879701896397 / 36028797018963968)
    = 3602879701896397 / 9007199254740992"
  by (subst round_double_scaled [where n = 54]) (simp_all add: round_half_even_def)

lemma sum_05:
  "round_double (3602879701896397 / 9007199254740992 + 3602879701896397 / 36028797018963968)
    = 1 / 2"
  by (subst round_double_scaled [where n = 53]) (simp_all add: round_half_even_def)

lemma sum_02_tenth:
  "round_double (3602879701896397 / 36028797018963968 + 1 / 10)
    = 3602879701896397 / 18014398509481984"
  by (subst round_double_scaled [where n = 55]) (simp_all add: round_half_even_def)

text \<open>The same equations with each sum written as one fraction.\<close>

lemma double_sums:
  "round_double (3602879701896397 / 36028797018963968) = 3602879701896397 / 36028797018963968"
  "round_double (3602879701896397 / 18014398509481984) = 3602879701896397 / 18014398509481984"
  "round_double (10808639105689191 / 36028797018963968) = 1351079888211149 / 4503599627370496"
  "round_double (14411518807585589 / 36028797018963968) = 3602879701896397 / 9007199254740992"
  "round_double (18014398509481985 / 36028797018963968) = 1 / 2"
  using sum_01 sum_02 sum_03 sum_04 sum_05 by simp_all

text \<open>The products of line 79: \<^verbatim>\<open>1600.0\<close>, \<^verbatim>\<open>1.0\<close> and \<^verbatim>\<open>110.00000000000001\<close>.\<close>

lemma target_16k: "interval_target cfg_16k = 1600"
proof -
  have "round_double (real_of_int 16000) = real_of_int 16000"
    by (rule round_double_int) simp
  moreover have "round_double (16000 * (3602879701896397 / 36028797018963968)) = 1600"
    by (subst round_double_scaled [where n = 42]) (simp_all add: round_half_even_def)
  ultimately show ?thesis
    by (simp add: interval_target_def cfg_16k_def double_01)
qed

lemma target_10: "round_double (round_double (real_of_int 10) * round_double (1 / 10)) = 1"
proof -
  have "round_double (real_of_int 10) = real_of_int 10"
    by (rule round_double_int) simp
  moreover have "round_double (10 * (3602879701896397 / 36028797018963968)) = 1"
    by (subst round_double_scaled [where n = 52]) (simp_all add: round_half_even_def)
  ultimately show ?thesis
    by (simp add: double_01)
qed

lemma target_small: "interval_target cfg_small = 1"
  using target_10 by (simp add: interval_target_def cfg_small_def)

lemma target_cap03: "interval_target cfg_cap03 = 1"
  using target_10 by (simp add: interval_target_def cfg_cap03_def)

lemma target_110: "interval_target cfg_110 = 7740561859543041 / 70368744177664"
proof -
  have "round_double (real_of_int 100) = real_of_int 100"
    by (rule round_double_int) simp
  moreover have "round_double (100 * (2476979795053773 / 2251799813685248))
                   = 7740561859543041 / 70368744177664"
    by (subst round_double_scaled [where n = 46]) (simp_all add: round_half_even_def)
  ultimately show ?thesis
    by (simp add: interval_target_def cfg_110_def double_11)
qed

subsection \<open>Rounding is monotone\<close>












subsection \<open>The reference model of \<^verbatim>\<open>audioop.rms\<close>\<close>

lemma le_unsigned_zeros: "le_unsigned (replicate n 0) = 0"
  by (induction n) (simp_all add: le_unsigned_def)

lemma getrawsample_zeros: "getrawsample (replicate n 0) = 0"
  by (simp add: getrawsample_def le_unsigned_zeros Let_def)

lemma split_samples_zeros:
  "s \<in> set (split_samples w (replicate n 0)) \<Longrightarrow> s = replicate w 0"
proof (induction n arbitrary: s rule: less_induct)
  case (less n)
  show ?case
  proof (cases "w = 0 \<or> n < w")
    case True
    with less.prems show ?thesis by (simp add: split_samples.simps [of w "replicate n 0"])
  next
    case False
    then have w: "0 < w" "w \<le> n" by simp_all
    from less.prems False
    have "s = replicate w 0 \<or> s \<in> set (split_samples w (replicate (n - w) 0))"
      by (simp add: split_samples.simps [of w "replicate n 0"] min_def)
    then show ?thesis using less.IH [of "n - w" s] w by auto
  qed
qed

lemma foldl_squares_zero:
  "\<forall>s \<in> set xs. getrawsample s = 0 \<Longrightarrow>
   foldl (\<lambda>acc s. round_double
                    (acc + round_double (real_of_int (getrawsample s)
                                           * real_of_int (getrawsample s)))) 0 xs = 0"
  by (induction xs) (simp_all add: round_double_0)

lemma sum_squares_zeros: "sum_squares w (replicate n 0) = 0"
  unfolding sum_squares_def
  by (rule foldl_squares_zero) (auto simp: getrawsample_zeros dest!: split_samples_zeros)

lemma audioop_rms_zeros:
  "1 \<le> w \<Longrightarrow> w \<le> 4 \<Longrightarrow> w dvd n \<Longrightarrow> audioop_rms (replicate n 0) w = Some 0"
  by (auto simp: audioop_rms_def sum_squares_zeros round_double_0)

lemma audioop_rms_empty: "1 \<le> w \<Longrightarrow> w \<le> 4 \<Longrightarrow> audioop_rms [] w = Some 0"
  by (simp add: audioop_rms_def)

lemma audioop_rms_error:
  "w < 1 \<or> 4 < w \<or> length bs mod w \<noteq> 0 \<Longrightarrow> audioop_rms bs w = None"
  by (auto simp: audioop_rms_def)

lemma split_samples_replicate:
  "s \<noteq> [] \<Longrightarrow> split_samples (length s) (concat (replicate n s)) = replicate n s"
proof (induction n)
  case 0
  then show ?case by (simp add: split_samples.simps [of _ "[]"])
next
  case (Suc n)
  then show ?case
    by (simp add: split_samples.simps [of "length s" "s @ concat (replicate n s)"])
qed

lemma foldl_squares_replicate:
  assumes q: "real_of_int (getrawsample s) * real_of_int (getrawsample s) = real q"
    and bound: "(a + k) * q < 2 ^ 53"
  shows "foldl (\<lambda>acc s. round_double
                    (acc + round_double (real_of_int (getrawsample s)
                                           * real_of_int (getrawsample s))))
           (real (a * q)) (replicate k s) = real ((a + k) * q)"
  using bound
proof (induction k arbitrary: a)
  case 0
  then show ?case by simp
next
  case (Suc k)
  have "q \<le> (a + Suc k) * q" by simp
  with Suc.prems have q53: "q < 2 ^ 53" by linarith
  have "Suc a * q \<le> (a + Suc k) * q" by (intro mult_le_mono) simp_all
  with Suc.prems have s53: "Suc a * q < 2 ^ 53" by linarith
  have one: "round_double (real q) = real q"
    by (rule round_double_nat [OF q53])
  have eq: "real (a * q) + real q = real (Suc a * q)" by (simp add: algebra_simps)
  have step: "round_double (real (a * q) + real q) = real (Suc a * q)"
    unfolding eq by (rule round_double_nat [OF s53])
  have "(Suc a + k) * q < 2 ^ 53" using Suc.prems by simp
  from Suc.IH [OF this] show ?case
    by (simp add: q one step del: of_nat_mult of_nat_Suc of_nat_add)
qed

text \<open>A fragment that repeats one sample has the magnitude of that sample as its RMS.\<close>

lemma audioop_rms_replicate:
  assumes w: "1 \<le> length s" "length s \<le> 4" and n: "0 < n"
    and bound: "n * nat (getrawsample s * getrawsample s) < 2 ^ 53"
  shows "audioop_rms (concat (replicate n s)) (length s) = Some (nat \<bar>getrawsample s\<bar>)"
proof -
  define v where "v = nat \<bar>getrawsample s\<bar>"
  define q where "q = nat (getrawsample s * getrawsample s)"
  have ne: "s \<noteq> []" using w by auto
  have qv: "q = v * v"
    by (simp add: q_def v_def nat_mult_distrib flip: nat_abs_mult_distrib)
  have sq: "real_of_int (getrawsample s) * real_of_int (getrawsample s) = real q"
    by (simp add: q_def flip: of_int_mult)
  have len: "length (concat (replicate n s)) = n * length s"
    by (induction n) simp_all
  have "foldl (\<lambda>acc s. round_double
                    (acc + round_double (real_of_int (getrawsample s)
                                           * real_of_int (getrawsample s))))
           (real (0 * q)) (replicate n s) = real ((0 + n) * q)"
    by (rule foldl_squares_replicate [OF sq]) (use bound in \<open>simp add: q_def\<close>)
  then have ss: "sum_squares (length s) (concat (replicate n s)) = real (n * q)"
    by (simp add: sum_squares_def split_samples_replicate [OF ne])
  have "q \<le> n * q" using n by simp
  moreover have "n * q < 2 ^ 53" using bound by (simp only: q_def)
  ultimately have q53: "q < 2 ^ 53" by linarith
  have "v \<le> v * v" by (cases v) simp_all
  moreover have "v * v < 2 ^ 53" using q53 by (simp only: qv)
  ultimately have v53: "v < 2 ^ 53" by linarith
  have mean: "real (n * q) / real n = real q" using n by simp
  have root: "sqrt (real q) = real v" by (simp add: qv)
  have "nat \<lfloor>round_double (sqrt (round_double (real (n * q) / real n)))\<rfloor> = v"
    unfolding mean round_double_nat [OF q53] root round_double_nat [OF v53] by simp
  then show ?thesis
    using w n ne by (simp add: audioop_rms_def len ss flip: v_def)
qed

lemma getrawsample_full_scale: "getrawsample [0x00, 0x80] = - 32768"
  by (simp add: getrawsample_def le_unsigned_def Let_def)

lemma rms_loud_1600: "audioop_rms loud_1600 2 = Some 32768"
proof -
  have len: "length [0x00, 0x80 :: byte] = 2" by simp
  have "audioop_rms (concat (replicate 1600 [0x00, 0x80])) (length [0x00, 0x80 :: byte]) =
          Some (nat \<bar>getrawsample [0x00, 0x80]\<bar>)"
    by (rule audioop_rms_replicate) (simp_all add: getrawsample_full_scale)
  then show ?thesis
    unfolding len getrawsample_full_scale loud_1600_def by simp
qed

lemma rms_quiet_1600: "audioop_rms quiet_1600 2 = Some 0"
  by (simp add: quiet_1600_def audioop_rms_zeros)

lemma rms_loud_frame: "audioop_rms loud_frame 2 = Some 32768"
proof -
  have len: "length [0x00, 0x80 :: byte] = 2" by simp
  have "audioop_rms (concat (replicate 1 [0x00, 0x80])) (length [0x00, 0x80 :: byte]) =
          Some (nat \<bar>getrawsample [0x00, 0x80]\<bar>)"
    by (rule audioop_rms_replicate) (simp_all add: getrawsample_full_scale)
  then show ?thesis
    unfolding len getrawsample_full_scale loud_frame_def by simp
qed

lemma rms_quiet_frame: "audioop_rms quiet_frame 2 = Some 0"
  using audioop_rms_zeros [of 2 2] by (simp add: quiet_frame_def numeral_2_eq_2)

lemma length_loud_1600: "length loud_1600 = 3200"
  by (simp add: loud_1600_def length_concat sum_list_replicate)

lemma length_quiet_1600: "length quiet_1600 = 3200"
  by (simp add: quiet_1600_def)

subsection \<open>From chunks to intervals\<close>

lemma get_dbfs_None: "get_dbfs rms bs sw = None \<longleftrightarrow> rms bs sw = None"
  by (simp add: get_dbfs_def Let_def split: option.splits)

lemma loud_Some:
  "get_dbfs rms bs sw = Some amp \<Longrightarrow> loud rms cfg sw bs = dbfs_gt amp (silence_threshold cfg)"
  by (simp add: loud_def)

lemma task_loop_append:
  "task_loop rms cfg sw st (xs @ ys) =
     (case task_loop rms cfg sw st xs of
        (o1, None) \<Rightarrow> (o1, None)
      | (o1, Some s1) \<Rightarrow> (case task_loop rms cfg sw s1 ys of (o2, fin) \<Rightarrow> (o1 @ o2, fin)))"
  by (induction xs arbitrary: st) (simp_all split: prod.splits option.splits)


lemma readable_from_append:
  "readable_from rms sw acc (xs @ ys) \<longleftrightarrow>
     readable_from rms sw acc xs \<and> readable_from rms sw (acc @ concat xs) ys"
  by (induction xs arbitrary: acc) auto

lemma task_loop_below:
  assumes "0 < chunk cfg"
    and "real_of_int (interval_frame_count st + int (length cs) * chunk cfg)
           < interval_target cfg"
    and "readable_from rms sw (interval_frames st) cs"
  shows "task_loop rms cfg sw st cs =
           ([], Some (st\<lparr>interval_frame_count :=
                            interval_frame_count st + int (length cs) * chunk cfg,
                         interval_frames := interval_frames st @ concat cs\<rparr>))"
  using assms(2,3)
proof (induction cs arbitrary: st)
  case Nil
  then show ?case by simp
next
  case (Cons c cs)
  let ?st1 = "st\<lparr>interval_frame_count := interval_frame_count st + chunk cfg,
                   interval_frames := interval_frames st @ c\<rparr>"
  have "interval_frame_count st + chunk cfg
          \<le> interval_frame_count st + int (length (c # cs)) * chunk cfg"
    using assms(1) by (simp add: algebra_simps)
  then have "real_of_int (interval_frame_count st + chunk cfg)
          \<le> real_of_int (interval_frame_count st + int (length (c # cs)) * chunk cfg)"
    by (simp only: of_int_le_iff)
  with Cons.prems(1)
  have below: "real_of_int (interval_frame_count st + chunk cfg) < interval_target cfg"
    by linarith
  from Cons.prems(2) obtain amp
    where amp: "get_dbfs rms (interval_frames st @ c) sw = Some amp"
    by (cases "get_dbfs rms (interval_frames st @ c) sw") (auto simp: get_dbfs_None)
  have step: "loop_body rms cfg sw st c = Some (None, ?st1)"
    using below by (simp add: loop_body_def Let_def amp)
  have "real_of_int (interval_frame_count ?st1 + int (length cs) * chunk cfg)
          < interval_target cfg"
    using Cons.prems(1) by (simp add: algebra_simps)
  moreover have "readable_from rms sw (interval_frames ?st1) cs"
    using Cons.prems(2) by simp
  ultimately have "task_loop rms cfg sw ?st1 cs =
           ([], Some (?st1\<lparr>interval_frame_count :=
                            interval_frame_count ?st1 + int (length cs) * chunk cfg,
                         interval_frames := interval_frames ?st1 @ concat cs\<rparr>))"
    by (rule Cons.IH)
  then show ?case
    by (simp add: step algebra_simps)
qed

lemma complete_interval_count:
  "complete_interval cfg amp (st\<lparr>interval_frame_count := n, interval_frames := bs\<rparr>) =
     tick cfg (dbfs_gt amp (silence_threshold cfg)) st bs"
  by (simp add: tick_def complete_interval_def decide_def Let_def)

lemma tick_clean:
  "tick cfg speaking st bs = (out, st1) \<Longrightarrow>
     interval_frame_count st1 = 0 \<and> interval_frames st1 = []"
  by (auto simp: tick_def split: prod.splits)

lemma task_loop_one_interval:
  assumes iv: "one_interval cfg iv" and ok: "readable rms sw iv"
    and clean: "interval_frame_count st = 0" "interval_frames st = []"
  shows "task_loop rms cfg sw st iv =
           (case tick cfg (loud rms cfg sw (concat iv)) st (concat iv) of
              (out, st1) \<Rightarrow> ((case out of None \<Rightarrow> [] | Some u \<Rightarrow> [u]), Some st1))"
proof -
  from iv have ne: "iv \<noteq> []" and pos: "0 < chunk cfg"
    and lo: "real_of_int (int (length iv - 1) * chunk cfg) < interval_target cfg"
    and hi: "interval_target cfg \<le> real_of_int (int (length iv) * chunk cfg)"
    by (simp_all add: one_interval_def)
  define cs where "cs = butlast iv"
  define c where "c = last iv"
  have iv_eq: "iv = cs @ [c]" using ne by (simp add: cs_def c_def)
  have len: "length iv = Suc (length cs)" by (simp add: iv_eq)
  from ok have ok_cs: "readable_from rms sw (interval_frames st) cs"
    and ok_c: "rms (concat cs @ c) sw \<noteq> None"
    by (simp_all add: readable_def iv_eq readable_from_append clean)
  then obtain amp where amp: "get_dbfs rms (concat iv) sw = Some amp"
    by (cases "get_dbfs rms (concat iv) sw") (auto simp: get_dbfs_None iv_eq)
  let ?st1 = "st\<lparr>interval_frame_count := interval_frame_count st + int (length cs) * chunk cfg,
                   interval_frames := interval_frames st @ concat cs\<rparr>"
  have "real_of_int (interval_frame_count st + int (length cs) * chunk cfg)
          < interval_target cfg"
    using lo by (simp add: clean len)
  from task_loop_below [OF pos this ok_cs]
  have first: "task_loop rms cfg sw st cs = ([], Some ?st1)" .
  have cnt: "interval_frame_count ?st1 + chunk cfg = int (length iv) * chunk cfg"
    by (simp add: clean len algebra_simps)
  have "loop_body rms cfg sw ?st1 c =
          Some (complete_interval cfg amp
            (st\<lparr>interval_frame_count := int (length iv) * chunk cfg,
                interval_frames := concat iv\<rparr>))"
    using hi amp unfolding loop_body_def Let_def cnt [symmetric]
    by (simp add: clean iv_eq)
  then have last_step:
    "loop_body rms cfg sw ?st1 c = Some (tick cfg (loud rms cfg sw (concat iv)) st (concat iv))"
    by (simp only: complete_interval_count loud_Some [OF amp])
  show ?thesis
    by (subst iv_eq) (simp add: task_loop_append first last_step split: prod.splits)
qed

lemma task_loop_intervals:
  assumes "\<forall>iv \<in> set ivs. one_interval cfg iv" and "\<forall>iv \<in> set ivs. readable rms sw iv"
    and "interval_frame_count st = 0" "interval_frames st = []"
  shows "task_loop rms cfg sw st (concat ivs) =
           (case ticks rms cfg sw st (map concat ivs) of (outs, st1) \<Rightarrow> (outs, Some st1))"
  using assms
proof (induction ivs arbitrary: st)
  case Nil
  then show ?case by simp
next
  case (Cons iv ivs)
  obtain out st1 where t: "tick cfg (loud rms cfg sw (concat iv)) st (concat iv) = (out, st1)"
    by (cases "tick cfg (loud rms cfg sw (concat iv)) st (concat iv)")
  from tick_clean [OF t] Cons.prems Cons.IH [of st1]
  have "task_loop rms cfg sw st1 (concat ivs) =
          (case ticks rms cfg sw st1 (map concat ivs) of (outs, st2) \<Rightarrow> (outs, Some st2))"
    by simp
  moreover have "task_loop rms cfg sw st iv =
      ((case out of None \<Rightarrow> [] | Some u \<Rightarrow> [u]), Some st1)"
    using task_loop_one_interval [of cfg iv rms sw st] Cons.prems t by simp
  ultimately show ?case
    by (simp add: task_loop_append t split: prod.splits)
qed

subsection \<open>The decision on a completed interval, case by case\<close>

lemma tick_waiting_quiet:
  "status st = Waiting \<Longrightarrow> \<not> speaking \<Longrightarrow>
   tick cfg speaking st bs =
     (None, st\<lparr>last_interval_frames := bs, interval_frame_count := 0, interval_frames := []\<rparr>)"
  by (simp add: tick_def decide_def Let_def)

lemma tick_waiting_loud:
  "status st = Waiting \<Longrightarrow> speaking \<Longrightarrow>
   tick cfg speaking st bs =
     (None, st\<lparr>speaking_frames := speaking_frames st @ last_interval_frames st @ bs,
               status := Speaking,
               last_interval_frames := bs, interval_frame_count := 0, interval_frames := []\<rparr>)"
  by (simp add: tick_def decide_def Let_def)

lemma tick_speaking_on:
  "status st = Speaking \<Longrightarrow> speaking \<Longrightarrow>
   round_double (total_speaking_seconds st + record_interval_sec cfg)
     \<le> max_recording_sec cfg \<Longrightarrow>
   tick cfg speaking st bs =
     (None, st\<lparr>speaking_frames := speaking_frames st @ bs,
               total_speaking_seconds :=
                 round_double (total_speaking_seconds st + record_interval_sec cfg),
               last_interval_frames := bs, interval_frame_count := 0, interval_frames := []\<rparr>)"
  by (simp add: tick_def decide_def Let_def)

lemma tick_speaking_stop:
  "status st = Speaking \<Longrightarrow>
   \<not> speaking \<or>
     max_recording_sec cfg
       < round_double (total_speaking_seconds st + record_interval_sec cfg) \<Longrightarrow>
   tick cfg speaking st bs =
     (None, st\<lparr>speaking_frames := speaking_frames st @ bs,
               total_speaking_seconds :=
                 round_double (total_speaking_seconds st + record_interval_sec cfg),
               status := Stopped,
               last_interval_frames := bs, interval_frame_count := 0, interval_frames := []\<rparr>)"
  by (auto simp add: tick_def decide_def Let_def)

lemma tick_stopped_emit:
  "status st = Stopped \<Longrightarrow>
   \<not> speaking \<or>
     max_recording_sec cfg
       < round_double (total_speaking_seconds st + record_interval_sec cfg) \<Longrightarrow>
   tick cfg speaking st bs =
     (Some (speaking_frames st @ bs),
      st\<lparr>speaking_frames := [],
         total_speaking_seconds :=
           round_double (total_speaking_seconds st + record_interval_sec cfg),
         status := Waiting,
         last_interval_frames := [], interval_frame_count := 0, interval_frames := []\<rparr>)"
  by (auto simp add: tick_def decide_def Let_def)


lemma ticks_three_loud_two_quiet:
  assumes quiet: "\<not> loud rms cfg sw q0" "\<not> loud rms cfg sw q4" "\<not> loud rms cfg sw q5"
    and louds: "loud rms cfg sw l1" "loud rms cfg sw l2" "loud rms cfg sw l3"
    and cap: "duration_after cfg 1 0 \<le> max_recording_sec cfg"
             "duration_after cfg 2 0 \<le> max_recording_sec cfg"
  shows "fst (ticks rms cfg sw init_state [q0, l1, l2, l3, q4, q5]) =
           [q0 @ l1 @ l2 @ l3 @ q4 @ q5]"
proof -
  let ?r = "record_interval_sec cfg"
  define t1 where "t1 = round_double (0 + ?r)"
  define t2 where "t2 = round_double (t1 + ?r)"
  define t3 where "t3 = round_double (t2 + ?r)"
  have cap1: "t1 \<le> max_recording_sec cfg" and cap2: "t2 \<le> max_recording_sec cfg"
    using cap by (simp_all add: t1_def t2_def numeral_2_eq_2)
  define s0 :: "'a loop_state" where "s0 = init_state\<lparr>last_interval_frames := q0\<rparr>"
  define s1 where "s1 = s0\<lparr>speaking_frames := q0 @ l1, status := Speaking,
                            last_interval_frames := l1\<rparr>"
  define s2 where "s2 = s1\<lparr>speaking_frames := q0 @ l1 @ l2, total_speaking_seconds := t1,
                            last_interval_frames := l2\<rparr>"
  define s3 where "s3 = s2\<lparr>speaking_frames := q0 @ l1 @ l2 @ l3,
                            total_speaking_seconds := t2, last_interval_frames := l3\<rparr>"
  define s4 where "s4 = s3\<lparr>speaking_frames := q0 @ l1 @ l2 @ l3 @ q4,
                            total_speaking_seconds := t3, status := Stopped,
                            last_interval_frames := q4\<rparr>"
  have t0: "tick cfg (loud rms cfg sw q0) init_state q0 = (None, s0)"
    using quiet(1) by (simp add: tick_waiting_quiet s0_def init_state_def)
  have t1': "tick cfg (loud rms cfg sw l1) s0 l1 = (None, s1)"
    using louds(1) by (simp add: tick_waiting_loud s0_def s1_def init_state_def)
  have t2': "tick cfg (loud rms cfg sw l2) s1 l2 = (None, s2)"
    using louds(2) cap1
    by (simp add: tick_speaking_on s0_def s1_def s2_def init_state_def t1_def)
  have t3': "tick cfg (loud rms cfg sw l3) s2 l3 = (None, s3)"
    using louds(3) cap2
    by (simp add: tick_speaking_on s0_def s1_def s2_def s3_def init_state_def t2_def)
  have t4': "tick cfg (loud rms cfg sw q4) s3 q4 = (None, s4)"
    using quiet(2)
    by (simp add: tick_speaking_stop s0_def s1_def s2_def s3_def s4_def init_state_def t3_def)
  have "\<exists>s5. tick cfg (loud rms cfg sw q5) s4 q5 = (Some (q0 @ l1 @ l2 @ l3 @ q4 @ q5), s5)"
    using quiet(3)
    by (simp add: tick_stopped_emit s0_def s1_def s2_def s3_def s4_def init_state_def)
  then obtain s5
    where t5': "tick cfg (loud rms cfg sw q5) s4 q5 = (Some (q0 @ l1 @ l2 @ l3 @ q4 @ q5), s5)" ..
  show ?thesis
    by (simp add: t0 t1' t2' t3' t4' t5')
qed

subsection \<open>Three loud intervals, then two quiet ones\<close>

lemma duration_after_1: "duration_after cfg 1 t = round_double (t + record_interval_sec cfg)"
  by simp


lemma duration_after_2:
  "duration_after cfg 2 t =
     round_double (round_double (t + record_interval_sec cfg) + record_interval_sec cfg)"
  by (simp add: numeral_2_eq_2)

lemma durations_tenth:
  assumes "record_interval_sec cfg = round_double (1 / 10) \<or> record_interval_sec cfg = 1 / 10"
  shows "duration_after cfg 1 0 = 3602879701896397 / 36028797018963968"
    and "duration_after cfg 2 0 = 3602879701896397 / 18014398509481984"
proof -
  have zero: "round_double (0 + 1 / 10) = 3602879701896397 / 36028797018963968"
    using double_01 by simp
  from assms
  have "duration_after cfg 1 0 = 3602879701896397 / 36028797018963968 \<and>
        duration_after cfg 2 0 = 3602879701896397 / 18014398509481984"
  proof
    assume r: "record_interval_sec cfg = round_double (1 / 10)"
    show ?thesis
      unfolding duration_after_1 duration_after_2 r double_01 sum_01 sum_02 by simp
  next
    assume r: "record_interval_sec cfg = 1 / 10"
    show ?thesis
      unfolding duration_after_1 duration_after_2 r zero sum_02_tenth by simp
  qed
  then show "duration_after cfg 1 0 = 3602879701896397 / 36028797018963968"
    and "duration_after cfg 2 0 = 3602879701896397 / 18014398509481984"
    by simp_all
qed

lemma scenario_16k:
  assumes cfg: "rate cfg = 16000"
      "record_interval_sec cfg = round_double (1 / 10) \<or> record_interval_sec cfg = 1 / 10"
      "silence_threshold cfg = - 40" "max_recording_sec cfg = 5"
    and ivs: "\<forall>iv \<in> set [q0, l1, l2, l3, q4, q5].
                one_interval cfg iv \<and> readable rms sw iv \<and>
                length (concat iv) = 1600 * frame_bytes"
    and quiet: "\<forall>iv \<in> set [q0, q4, q5]. \<not> loud rms cfg sw (concat iv)"
    and louds: "\<forall>iv \<in> set [l1, l2, l3]. loud rms cfg sw (concat iv)"
  shows "recording_task_loop rms cfg sw (q0 @ l1 @ l2 @ l3 @ q4 @ q5) =
           [concat (q0 @ l1 @ l2 @ l3 @ q4 @ q5)] \<and>
         length (concat (q0 @ l1 @ l2 @ l3 @ q4 @ q5)) = 9600 * frame_bytes"
proof -
  have one: "\<forall>iv \<in> set [q0, l1, l2, l3, q4, q5]. one_interval cfg iv"
    and ok: "\<forall>iv \<in> set [q0, l1, l2, l3, q4, q5]. readable rms sw iv"
    using ivs by simp_all
  from task_loop_intervals [OF one ok, of init_state]
  have "fst (task_loop rms cfg sw init_state (concat [q0, l1, l2, l3, q4, q5])) =
          fst (ticks rms cfg sw init_state (map concat [q0, l1, l2, l3, q4, q5]))"
    by (simp add: init_state_def split: prod.splits)
  moreover have "fst (ticks rms cfg sw init_state
                   [concat q0, concat l1, concat l2, concat l3, concat q4, concat q5]) =
          [concat q0 @ concat l1 @ concat l2 @ concat l3 @ concat q4 @ concat q5]"
    using quiet louds durations_tenth [OF cfg(2)] cfg(4)
    by (intro ticks_three_loud_two_quiet) simp_all
  ultimately have "recording_task_loop rms cfg sw (q0 @ l1 @ l2 @ l3 @ q4 @ q5) =
           [concat (q0 @ l1 @ l2 @ l3 @ q4 @ q5)]"
    by (simp add: recording_task_loop_def)
  moreover have "length (concat (q0 @ l1 @ l2 @ l3 @ q4 @ q5)) = 9600 * frame_bytes"
    using ivs by simp
  ultimately show ?thesis by simp
qed

lemma not_loud_quiet_1600: "\<not> loud audioop_rms cfg_16k 2 quiet_1600"
  by (simp add: loud_def get_dbfs_def rms_quiet_1600)

lemma loud_loud_1600: "loud audioop_rms cfg_16k 2 loud_1600"
  by (simp add: loud_def get_dbfs_def rms_loud_1600 cfg_16k_def)

lemma one_interval_16k: "one_interval cfg_16k [c]"
  by (simp add: one_interval_def target_16k) (simp add: cfg_16k_def)

lemma readable_1600:
  "readable audioop_rms 2 [quiet_1600]" "readable audioop_rms 2 [loud_1600]"
  by (simp_all add: readable_def rms_quiet_1600 rms_loud_1600)

lemma cfg_16k_fields:
  "rate cfg_16k = 16000" "record_interval_sec cfg_16k = round_double (1 / 10)"
  "silence_threshold cfg_16k = - 40" "max_recording_sec cfg_16k = 5"
  by (simp_all add: cfg_16k_def)

lemma scenario_16k_run:
  "recording_task_loop audioop_rms cfg_16k 2
     [quiet_1600, loud_1600, loud_1600, loud_1600, quiet_1600, quiet_1600] =
     [quiet_1600 @ loud_1600 @ loud_1600 @ loud_1600 @ quiet_1600 @ quiet_1600]"
  using scenario_16k [of cfg_16k "[quiet_1600]" "[loud_1600]" "[loud_1600]" "[loud_1600]"
      "[quiet_1600]" "[quiet_1600]" audioop_rms 2 2]
  by (simp add: one_interval_16k readable_1600 not_loud_quiet_1600 loud_loud_1600
      length_loud_1600 length_quiet_1600 cfg_16k_fields)

text \<open>
  C1 (as amended). With rate 16000, intervals of 0.1 seconds, threshold -40 dBFS and a cap
  of 5 seconds: from the initial state, one quiet interval (the lookback), three loud
  intervals and two quiet intervals, each of 1600 frames, yield exactly one utterance.
  It holds all six intervals, 9600 frames: the lookback, the three loud intervals and both
  quiet intervals. (The interval length is the double \<^verbatim>\<open>0.1\<close>; the statement holds for the
  exact tenth as well.)
\<close>

theorem three_loud_two_quiet:
  assumes "rate cfg = 16000"
      "record_interval_sec cfg = round_double (1 / 10) \<or> record_interval_sec cfg = 1 / 10"
      "silence_threshold cfg = - 40" "max_recording_sec cfg = 5"
    and "\<forall>iv \<in> set [q0, l1, l2, l3, q4, q5].
           one_interval cfg iv \<and> readable rms sw iv \<and>
           length (concat iv) = 1600 * frame_bytes"
    and "\<forall>iv \<in> set [q0, q4, q5]. \<not> loud rms cfg sw (concat iv)"
    and "\<forall>iv \<in> set [l1, l2, l3]. loud rms cfg sw (concat iv)"
  shows "recording_task_loop rms cfg sw (q0 @ l1 @ l2 @ l3 @ q4 @ q5) =
           [concat (q0 @ l1 @ l2 @ l3 @ q4 @ q5)] \<and>
         length (concat (q0 @ l1 @ l2 @ l3 @ q4 @ q5)) = 9600 * frame_bytes"
  using assms by (rule scenario_16k)

theorem three_loud_two_quiet_witness:
  "rate cfg_16k = 16000 \<and> record_interval_sec cfg_16k = round_double (1 / 10) \<and>
   silence_threshold cfg_16k = - 40 \<and> max_recording_sec cfg_16k = 5 \<and>
   one_interval cfg_16k [quiet_1600] \<and> one_interval cfg_16k [loud_1600] \<and>
   readable audioop_rms 2 [quiet_1600] \<and> readable audioop_rms 2 [loud_1600] \<and>
   length quiet_1600 = 1600 * 2 \<and> length loud_1600 = 1600 * 2 \<and>
   \<not> loud audioop_rms cfg_16k 2 quiet_1600 \<and> loud audioop_rms cfg_16k 2 loud_1600 \<and>
   recording_task_loop audioop_rms cfg_16k 2
     [quiet_1600, loud_1600, loud_1600, loud_1600, quiet_1600, quiet_1600] =
     [quiet_1600 @ loud_1600 @ loud_1600 @ loud_1600 @ quiet_1600 @ quiet_1600] \<and>
   length (quiet_1600 @ loud_1600 @ loud_1600 @ loud_1600 @ quiet_1600 @ quiet_1600) =
     9600 * 2"
  using three_loud_two_quiet [of cfg_16k "[quiet_1600]" "[loud_1600]" "[loud_1600]"
      "[loud_1600]" "[quiet_1600]" "[quiet_1600]" audioop_rms 2 2]
  by (simp add: one_interval_16k readable_1600 not_loud_quiet_1600 loud_loud_1600
      length_loud_1600 length_quiet_1600 cfg_16k_fields)

text \<open>
  C1 as stated fails: on that input the one utterance has 9600 frames of two bytes, not
  8000.
\<close>

theorem three_loud_two_quiet_not_8000:
  "map length (recording_task_loop audioop_rms cfg_16k 2
     [quiet_1600, loud_1600, loud_1600, loud_1600, quiet_1600, quiet_1600]) = [9600 * 2] \<and>
   map length (recording_task_loop audioop_rms cfg_16k 2
     [quiet_1600, loud_1600, loud_1600, loud_1600, quiet_1600, quiet_1600]) \<noteq> [8000 * 2]"
  by (simp add: scenario_16k_run length_loud_1600 length_quiet_1600)

subsection \<open>Silence\<close>

text \<open>
  C9. A chunk whose RMS is zero has loudness minus infinity, which is above no threshold,
  so the interval is not classified as speaking. With the reference model of
  \<^verbatim>\<open>audioop.rms\<close>, at a sample width of 1, 2, 3 or 4 bytes, the empty chunk and every
  chunk of zero bytes that is a whole number of samples are such chunks.
\<close>

theorem zero_rms_is_silence:
  "(rms frames sample_width = Some 0 \<longrightarrow>
      get_dbfs rms frames sample_width = Some NegInf \<and>
      \<not> dbfs_gt NegInf threshold \<and>
      \<not> loud rms cfg sample_width frames) \<and>
   (1 \<le> width \<and> width \<le> 4 \<longrightarrow>
      audioop_rms [] width = Some 0 \<and>
      get_dbfs audioop_rms [] width = Some NegInf) \<and>
   (1 \<le> width \<and> width \<le> 4 \<and> width dvd n \<longrightarrow>
      audioop_rms (replicate n 0) width = Some 0 \<and>
      get_dbfs audioop_rms (replicate n 0) width = Some NegInf)"
  by (simp add: get_dbfs_def loud_def audioop_rms_empty audioop_rms_zeros)

theorem zero_rms_is_silence_witness:
  "audioop_rms quiet_frame 2 = Some 0 \<and>
   get_dbfs audioop_rms quiet_frame 2 = Some NegInf \<and>
   \<not> dbfs_gt NegInf (- 40) \<and>
   \<not> loud audioop_rms cfg_16k 2 quiet_frame \<and>
   (1::nat) \<le> 2 \<and> (2::nat) \<le> 4 \<and> (2::nat) dvd 6 \<and>
   audioop_rms [] 2 = Some 0 \<and>
   get_dbfs audioop_rms [] 2 = Some NegInf \<and>
   audioop_rms (replicate 6 0) 2 = Some 0 \<and>
   get_dbfs audioop_rms (replicate 6 0) 2 = Some NegInf"
  using zero_rms_is_silence [of audioop_rms quiet_frame 2 "- 40" cfg_16k 2 6]
  by (simp add: rms_quiet_frame)

subsection \<open>Runs of the small configurations\<close>

lemma loud_loud_frame: "loud audioop_rms cfg_small 2 loud_frame"
  by (simp add: loud_def get_dbfs_def rms_loud_frame cfg_small_def)

lemma not_loud_quiet_frame: "\<not> loud audioop_rms cfg_small 2 quiet_frame"
  by (simp add: loud_def get_dbfs_def rms_quiet_frame)

lemma loud_frame_cap03: "loud audioop_rms cfg_cap03 2 loud_frame"
  by (simp add: loud_def get_dbfs_def rms_loud_frame cfg_cap03_def)

lemma not_loud_quiet_cap03: "\<not> loud audioop_rms cfg_cap03 2 quiet_frame"
  by (simp add: loud_def get_dbfs_def rms_quiet_frame)

lemma one_interval_small: "one_interval cfg_small [c]"
  by (simp add: one_interval_def target_small) (simp add: cfg_small_def)

lemma one_interval_cap03: "one_interval cfg_cap03 [c]"
  by (simp add: one_interval_def target_cap03) (simp add: cfg_cap03_def)

lemma task_loop_single_chunks:
  fixes cs :: "'a list list"
  assumes "\<And>c :: 'a list. one_interval cfg [c]" and "\<forall>c \<in> set cs. rms c sw \<noteq> None"
  shows "task_loop rms cfg sw init_state cs =
           (case ticks rms cfg sw init_state cs of (outs, st) \<Rightarrow> (outs, Some st))"
proof -
  have "\<forall>iv \<in> set (map (\<lambda>c. [c]) cs). one_interval cfg iv"
    by (auto intro: assms(1))
  moreover have "\<forall>iv \<in> set (map (\<lambda>c. [c]) cs). readable rms sw iv"
    using assms(2) by (auto simp: readable_def)
  ultimately show ?thesis
    using task_loop_intervals [of "map (\<lambda>c. [c]) cs" cfg rms sw init_state]
    by (simp add: init_state_def comp_def)
qed

lemma task_loop_small:
  "\<forall>c \<in> set cs. rms c sw \<noteq> None \<Longrightarrow>
   task_loop rms cfg_small sw init_state cs =
     (case ticks rms cfg_small sw init_state cs of (outs, st) \<Rightarrow> (outs, Some st))"
  by (rule task_loop_single_chunks [OF one_interval_small])

lemma task_loop_cap03:
  "\<forall>c \<in> set cs. rms c sw \<noteq> None \<Longrightarrow>
   task_loop rms cfg_cap03 sw init_state cs =
     (case ticks rms cfg_cap03 sw init_state cs of (outs, st) \<Rightarrow> (outs, Some st))"
  by (rule task_loop_single_chunks [OF one_interval_cap03])

lemma small_cfg_fields:
  "record_interval_sec cfg_small = 3602879701896397 / 36028797018963968"
  "max_recording_sec cfg_small = 3602879701896397 / 18014398509481984"
  "silence_threshold cfg_small = - 40"
  using double_02 by (simp_all add: cfg_small_def double_01)

lemma cap03_cfg_fields:
  "record_interval_sec cfg_cap03 = 3602879701896397 / 36028797018963968"
  "max_recording_sec cfg_cap03 = 5404319552844595 / 18014398509481984"
  "silence_threshold cfg_cap03 = - 40"
  using double_03 by (simp_all add: cfg_cap03_def double_01)

lemmas small_run =
  tick_def decide_def Let_def init_state_def
  loud_loud_frame not_loud_quiet_frame loud_frame_cap03 not_loud_quiet_cap03
  small_cfg_fields cap03_cfg_fields double_sums

lemma run_LQQ:
  "task_loop audioop_rms cfg_small 2 init_state [loud_frame, quiet_frame, quiet_frame] =
     ([loud_frame @ quiet_frame @ quiet_frame],
      Some \<lparr>interval_frame_count = 0, interval_frames = [], speaking_frames = [],
            last_interval_frames = [],
            total_speaking_seconds = 3602879701896397 / 18014398509481984,
            status = Waiting\<rparr>)"
  by (subst task_loop_small) (simp_all add: rms_loud_frame rms_quiet_frame small_run)

lemma run_LLQQLLL:
  "task_loop audioop_rms cfg_small 2 init_state
     [loud_frame, loud_frame, quiet_frame, quiet_frame, loud_frame, loud_frame, loud_frame] =
     ([loud_frame @ loud_frame @ quiet_frame @ quiet_frame,
       loud_frame @ loud_frame @ loud_frame],
      Some \<lparr>interval_frame_count = 0, interval_frames = [], speaking_frames = [],
            last_interval_frames = [], total_speaking_seconds = 5 / 10, status = Waiting\<rparr>)"
  by (subst task_loop_small) (simp_all add: rms_loud_frame rms_quiet_frame small_run)



text \<open>
  With a cap of \<^verbatim>\<open>0.3\<close> seconds the third sum, \<^verbatim>\<open>0.30000000000000004\<close>, exceeds the cap:
  five loud intervals yield the utterance, four do not.
\<close>

lemma run_LLLLL_cap03:
  "task_loop audioop_rms cfg_cap03 2 init_state
     [loud_frame, loud_frame, loud_frame, loud_frame, loud_frame] =
     ([loud_frame @ loud_frame @ loud_frame @ loud_frame @ loud_frame],
      Some \<lparr>interval_frame_count = 0, interval_frames = [], speaking_frames = [],
            last_interval_frames = [],
            total_speaking_seconds = 3602879701896397 / 9007199254740992,
            status = Waiting\<rparr>)"
  by (subst task_loop_cap03) (simp_all add: rms_loud_frame rms_quiet_frame small_run)

lemma run_LLLL_cap03:
  "fst (task_loop audioop_rms cfg_cap03 2 init_state
     [loud_frame, loud_frame, loud_frame, loud_frame]) = []"
  by (subst task_loop_cap03) (simp_all add: rms_loud_frame rms_quiet_frame small_run)

subsection \<open>The lookback\<close>

text \<open>
  At 100 frames per second and intervals of \<^verbatim>\<open>1.1\<close> seconds the product of line 79 is
  \<^verbatim>\<open>110.00000000000001\<close>: a first chunk of 110 frames does not complete the interval, the
  second one does.
\<close>

lemma incomplete_at_110:
  "loop_body audioop_rms cfg_110 2 init_state (replicate 220 0) =
     Some (None, init_state\<lparr>interval_frame_count := 110, interval_frames := replicate 220 0\<rparr>)"
  by (simp add: loop_body_def Let_def get_dbfs_def audioop_rms_zeros target_110 init_state_def)
     (simp add: cfg_110_def)

lemma one_interval_110: "one_interval cfg_110 [c1, c2]"
  by (simp add: one_interval_def target_110) (simp add: cfg_110_def)

text \<open>
  C3 (as amended). After every completed interval (the test of line 79 succeeds and line 78
  did not raise) the accumulator is cleared; the lookback is the bytes of that interval when
  nothing was yielded on it, and is empty when an utterance was yielded on it.
\<close>

theorem lookback_after_interval:
  assumes "interval_target cfg \<le> real_of_int (interval_frame_count st + chunk cfg)"
    and "loop_body rms cfg sw st in_data = Some (out, st1)"
  shows "interval_frame_count st1 = 0 \<and> interval_frames st1 = [] \<and>
         last_interval_frames st1 =
           (if out = None then interval_frames st @ in_data else [])"
  using assms
  by (auto simp: loop_body_def complete_interval_def decide_def Let_def
      split: if_splits option.splits)

lemma loop_body_quiet_start:
  "loop_body audioop_rms cfg_small 2 init_state quiet_frame =
     Some (None, init_state\<lparr>last_interval_frames := quiet_frame\<rparr>)"
  by (simp add: loop_body_def Let_def get_dbfs_def rms_quiet_frame target_small
      complete_interval_def decide_def init_state_def)
     (simp add: cfg_small_def)

lemma loop_body_quiet_stopped:
  "loop_body audioop_rms cfg_small 2
     \<lparr>interval_frame_count = 0, interval_frames = [],
      speaking_frames = loud_frame @ quiet_frame, last_interval_frames = quiet_frame,
      total_speaking_seconds = 3602879701896397 / 36028797018963968, status = Stopped\<rparr>
     quiet_frame =
     Some (Some (loud_frame @ quiet_frame @ quiet_frame),
           \<lparr>interval_frame_count = 0, interval_frames = [], speaking_frames = [],
            last_interval_frames = [],
            total_speaking_seconds = 3602879701896397 / 18014398509481984,
            status = Waiting\<rparr>)"
  by (simp add: loop_body_def Let_def get_dbfs_def rms_quiet_frame target_small
      complete_interval_def decide_def small_cfg_fields double_sums)
     (simp add: cfg_small_def)

theorem lookback_after_interval_witness:
  "interval_target cfg_small
     \<le> real_of_int (interval_frame_count (init_state :: byte loop_state) + chunk cfg_small) \<and>
   loop_body audioop_rms cfg_small 2 init_state quiet_frame =
     Some (None, init_state\<lparr>last_interval_frames := quiet_frame\<rparr>) \<and>
   last_interval_frames (init_state\<lparr>last_interval_frames := quiet_frame\<rparr>) = quiet_frame \<and>
   loop_body audioop_rms cfg_small 2
     \<lparr>interval_frame_count = 0, interval_frames = [],
      speaking_frames = loud_frame @ quiet_frame, last_interval_frames = quiet_frame,
      total_speaking_seconds = 3602879701896397 / 36028797018963968, status = Stopped\<rparr>
     quiet_frame =
     Some (Some (loud_frame @ quiet_frame @ quiet_frame),
           \<lparr>interval_frame_count = 0, interval_frames = [], speaking_frames = [],
            last_interval_frames = [],
            total_speaking_seconds = 3602879701896397 / 18014398509481984,
            status = Waiting\<rparr>)"
  using
    lookback_after_interval [of cfg_small init_state audioop_rms 2 quiet_frame None
      "init_state\<lparr>last_interval_frames := quiet_frame\<rparr>"]
    lookback_after_interval [of cfg_small
      "\<lparr>interval_frame_count = 0, interval_frames = [],
        speaking_frames = loud_frame @ quiet_frame, last_interval_frames = quiet_frame,
        total_speaking_seconds = 3602879701896397 / 36028797018963968, status = Stopped\<rparr>"
      audioop_rms 2 quiet_frame "Some (loud_frame @ quiet_frame @ quiet_frame)"
      "\<lparr>interval_frame_count = 0, interval_frames = [], speaking_frames = [],
        last_interval_frames = [],
        total_speaking_seconds = 3602879701896397 / 18014398509481984,
        status = Waiting\<rparr>"]
    loop_body_quiet_start loop_body_quiet_stopped
  by (simp add: target_small init_state_def) (simp add: cfg_small_def)

text \<open>
  C3 as stated fails: the third interval of this run is completed and an utterance is
  yielded on it; the lookback held afterwards is empty, not that interval's bytes.
\<close>

theorem lookback_after_emission_empty:
  "fst (task_loop audioop_rms cfg_small 2 init_state [loud_frame, quiet_frame, quiet_frame])
     = [loud_frame @ quiet_frame @ quiet_frame] \<and>
   map_option last_interval_frames
     (snd (task_loop audioop_rms cfg_small 2 init_state [loud_frame, quiet_frame, quiet_frame]))
     = Some [] \<and>
   map_option last_interval_frames
     (snd (task_loop audioop_rms cfg_small 2 init_state [loud_frame, quiet_frame, quiet_frame]))
     \<noteq> Some quiet_frame"
  unfolding run_LQQ by (simp add: quiet_frame_def)

subsection \<open>The speaking duration\<close>

text \<open>
  C2: the code never resets the duration. With a cap of 0.2 seconds, the first utterance
  of this run leaves the duration at 0.30000000000000004; the second utterance is then cut
  at its second interval although the speaker never stops and the utterance is two
  intervals old, and the duration ends at 0.5.
\<close>

theorem duration_never_reset:
  "task_loop audioop_rms cfg_small 2 init_state
     [loud_frame, loud_frame, quiet_frame, quiet_frame, loud_frame, loud_frame, loud_frame] =
     ([loud_frame @ loud_frame @ quiet_frame @ quiet_frame,
       loud_frame @ loud_frame @ loud_frame],
      Some \<lparr>interval_frame_count = 0, interval_frames = [], speaking_frames = [],
            last_interval_frames = [], total_speaking_seconds = 5 / 10, status = Waiting\<rparr>)"
  by (rule run_LLQQLLL)

subsection \<open>Runs of loud intervals\<close>



subsection \<open>A dip of one interval\<close>


lemma durations_cap03:
  "duration_after cfg_cap03 1 0 = 3602879701896397 / 36028797018963968"
  "duration_after cfg_cap03 2 0 = 3602879701896397 / 18014398509481984"
  "duration_after cfg_cap03 3 0 = 1351079888211149 / 4503599627370496"
  "duration_after cfg_cap03 4 0 = 3602879701896397 / 9007199254740992"
  by (simp_all add: eval_nat_numeral cap03_cfg_fields double_sums)





text \<open>
  The cap is compared with the rounded sums: with a cap of \<^verbatim>\<open>0.3\<close> seconds and intervals
  of \<^verbatim>\<open>0.1\<close> seconds, a loud interval, a dip and a loud interval from the state Speaking with
  duration 0 end the utterance, because the third sum is \<^verbatim>\<open>0.30000000000000004\<close>.
\<close>

lemma single_dip_cap03:
  "fst (task_loop audioop_rms cfg_cap03 2
          \<lparr>interval_frame_count = 0, interval_frames = [], speaking_frames = loud_frame,
           last_interval_frames = loud_frame, total_speaking_seconds = 0,
           status = Speaking\<rparr>
          [loud_frame, quiet_frame, loud_frame]) =
     [loud_frame @ loud_frame @ quiet_frame @ loud_frame] \<and>
   \<not> duration_after cfg_cap03 3 0 \<le> max_recording_sec cfg_cap03"
proof -
  have "\<forall>iv \<in> set [[loud_frame], [quiet_frame], [loud_frame]]. one_interval cfg_cap03 iv"
    by (simp add: one_interval_cap03)
  moreover have "\<forall>iv \<in> set [[loud_frame], [quiet_frame], [loud_frame]].
                   readable audioop_rms 2 iv"
    by (simp add: readable_def rms_loud_frame rms_quiet_frame)
  ultimately have "task_loop audioop_rms cfg_cap03 2
          \<lparr>interval_frame_count = 0, interval_frames = [], speaking_frames = loud_frame,
           last_interval_frames = loud_frame, total_speaking_seconds = 0,
           status = Speaking\<rparr>
          (concat [[loud_frame], [quiet_frame], [loud_frame]]) =
        (case ticks audioop_rms cfg_cap03 2
           \<lparr>interval_frame_count = 0, interval_frames = [], speaking_frames = loud_frame,
            last_interval_frames = loud_frame, total_speaking_seconds = 0,
            status = Speaking\<rparr>
           (map concat [[loud_frame], [quiet_frame], [loud_frame]]) of
           (outs, st1) \<Rightarrow> (outs, Some st1))"
    by (rule task_loop_intervals) simp_all
  then show ?thesis
    using durations_cap03(3) by (simp add: small_run)
qed

subsection \<open>The cap on the duration\<close>








subsection \<open>Utterances do not overlap\<close>

lemma subseq_distinct: "subseq xs ys \<Longrightarrow> distinct ys \<Longrightarrow> distinct xs"
proof (induction rule: list_emb.induct)
  case (list_emb_Nil ys)
  then show ?case by simp
next
  case (list_emb_Cons xs ys y)
  then show ?case by simp
next
  case (list_emb_Cons2 x y xs ys)
  then show ?case by (auto dest: list_emb_set)
qed

lemma subseq_drop_middle: "subseq (xs @ zs) (xs @ ys @ zs)"
  by (simp add: subseq_append' subseq_drop_many)

lemma complete_interval_held:
  "subseq ((case fst (complete_interval cfg amp st) of None \<Rightarrow> [] | Some u \<Rightarrow> u)
             @ held (snd (complete_interval cfg amp st)))
          (held st)"
proof (cases "status st")
  case Waiting
  then show ?thesis
    by (simp add: complete_interval_def decide_def held_def Let_def subseq_drop_middle
        subseq_drop_many)
next
  case Speaking
  then show ?thesis
    by (simp add: complete_interval_def decide_def held_def Let_def)
next
  case Stopped
  then show ?thesis
    by (simp add: complete_interval_def decide_def held_def Let_def)
qed

lemma loop_body_held:
  assumes "loop_body rms cfg sw st in_data = Some (out, st1)"
  shows "subseq ((case out of None \<Rightarrow> [] | Some u \<Rightarrow> u) @ held st1) (held st @ in_data)"
proof -
  let ?s = "st\<lparr>interval_frame_count := interval_frame_count st + chunk cfg,
                 interval_frames := interval_frames st @ in_data\<rparr>"
  have h: "held ?s = held st @ in_data" by (simp add: held_def)
  from assms obtain amp where amp: "get_dbfs rms (interval_frames st @ in_data) sw = Some amp"
    by (auto simp: loop_body_def Let_def split: option.splits)
  show ?thesis
  proof (cases "interval_target cfg \<le> real_of_int (interval_frame_count st + chunk cfg)")
    case True
    then have "complete_interval cfg amp ?s = (out, st1)"
      using assms amp by (simp add: loop_body_def Let_def)
    with complete_interval_held [of cfg amp ?s] show ?thesis
      by (simp only: h fst_conv snd_conv)
  next
    case False
    then have "out = None" "st1 = ?s"
      using assms amp by (simp_all add: loop_body_def Let_def)
    then show ?thesis by (simp only: h) simp
  qed
qed

lemma task_loop_held:
  "task_loop rms cfg sw st cs = (outs, fin) \<Longrightarrow>
   subseq (concat outs @ (case fin of None \<Rightarrow> [] | Some st1 \<Rightarrow> held st1))
          (held st @ concat cs)"
proof (induction cs arbitrary: st outs)
  case Nil
  then show ?case by auto
next
  case (Cons c cs)
  show ?case
  proof (cases "loop_body rms cfg sw st c")
    case None
    then have "outs = []" "fin = None"
      using Cons.prems by simp_all
    then show ?thesis by simp
  next
    case (Some r)
    obtain out s where r: "r = (out, s)" by (cases r)
    have step: "loop_body rms cfg sw st c = Some (out, s)"
      using Some r by simp
    obtain outs1 where rest: "task_loop rms cfg sw s cs = (outs1, fin)"
      and outs: "outs = (case out of None \<Rightarrow> [] | Some u \<Rightarrow> [u]) @ outs1"
      using Cons.prems by (auto simp: step split: prod.splits)
    let ?o = "case out of None \<Rightarrow> [] | Some u \<Rightarrow> u"
    let ?h = "case fin of None \<Rightarrow> [] | Some st1 \<Rightarrow> held st1"
    have o: "concat outs = ?o @ concat outs1"
      by (simp add: outs split: option.splits)
    have "subseq (?o @ concat outs1 @ ?h) (?o @ held s @ concat cs)"
      using Cons.IH [OF rest] by (simp only: subseq_append')
    also have "subseq (?o @ held s @ concat cs) (held st @ c @ concat cs)"
      using list_emb_append_mono [OF loop_body_held [OF step] subseq_order.order_refl,
          of "concat cs"]
      by (simp only: append_assoc)
    finally show ?thesis by (simp add: o)
  qed
qed

lemma recording_task_loop_subseq:
  "subseq (concat (recording_task_loop rms cfg sw chunks)) (concat chunks)"
proof -
  obtain outs fin where run: "task_loop rms cfg sw init_state chunks = (outs, fin)"
    by (cases "task_loop rms cfg sw init_state chunks")
  let ?h = "case fin of None \<Rightarrow> [] | Some st1 \<Rightarrow> held st1"
  have "subseq (concat outs) (concat outs @ ?h)"
    by (intro subseq_rev_drop_many subseq_order.order_refl)
  also have "subseq (concat outs @ ?h) (held init_state @ concat chunks)"
    by (rule task_loop_held [OF run])
  finally have "subseq (concat outs) (held (init_state :: 'a loop_state) @ concat chunks)" .
  moreover have "held (init_state :: 'a loop_state) = []"
    by (simp add: held_def init_state_def)
  ultimately show ?thesis
    by (simp add: recording_task_loop_def run)
qed

lemma get_dbfs_map: "get_dbfs (\<lambda>bs. rms (map f bs)) bs sw = get_dbfs rms (map f bs) sw"
  by (simp add: get_dbfs_def)

lemma complete_interval_map:
  "complete_interval cfg amp (map_state f st) =
     map_prod (map_option (map f)) (map_state f) (complete_interval cfg amp st)"
proof (cases "status st")
  case Waiting
  then show ?thesis
    by (simp add: complete_interval_def decide_def map_state_def Let_def)
next
  case Speaking
  then show ?thesis
    by (simp add: complete_interval_def decide_def map_state_def Let_def)
next
  case Stopped
  then show ?thesis
    by (simp add: complete_interval_def decide_def map_state_def Let_def)
qed

lemma loop_body_map:
  "loop_body rms cfg sw (map_state f st) (map f in_data) =
     map_option (map_prod (map_option (map f)) (map_state f))
       (loop_body (\<lambda>bs. rms (map f bs)) cfg sw st in_data)"
proof -
  let ?s = "st\<lparr>interval_frame_count := interval_frame_count st + chunk cfg,
                 interval_frames := interval_frames st @ in_data\<rparr>"
  have s: "(map_state f st)\<lparr>interval_frame_count :=
               interval_frame_count (map_state f st) + chunk cfg,
             interval_frames := interval_frames (map_state f st) @ map f in_data\<rparr> =
           map_state f ?s"
    by (simp add: map_state_def)
  have c: "interval_frame_count (map_state f ?s) = interval_frame_count st + chunk cfg"
    and i: "interval_frames (map_state f ?s) = map f (interval_frames st @ in_data)"
    by (simp_all add: map_state_def)
  show ?thesis
    unfolding loop_body_def Let_def s c i get_dbfs_map
    by (simp add: complete_interval_map split: option.splits)
qed

lemma task_loop_map:
  "task_loop rms cfg sw (map_state f st) (map (map f) cs) =
     map_prod (map (map f)) (map_option (map_state f))
       (task_loop (\<lambda>bs. rms (map f bs)) cfg sw st cs)"
proof (induction cs arbitrary: st)
  case Nil
  then show ?case by simp
next
  case (Cons c cs)
  show ?case
  proof (cases "loop_body (\<lambda>bs. rms (map f bs)) cfg sw st c")
    case None
    then have "loop_body rms cfg sw (map_state f st) (map f c) = None"
      unfolding loop_body_map by simp
    then show ?thesis
      by (simp only: list.map task_loop.simps None option.case) simp
  next
    case (Some r)
    obtain out s where r: "r = (out, s)" by (cases r)
    have step: "loop_body (\<lambda>bs. rms (map f bs)) cfg sw st c = Some (out, s)"
      using Some r by simp
    obtain outs1 s1 where rest: "task_loop (\<lambda>bs. rms (map f bs)) cfg sw s cs = (outs1, s1)"
      by (cases "task_loop (\<lambda>bs. rms (map f bs)) cfg sw s cs")
    have step': "loop_body rms cfg sw (map_state f st) (map f c) =
                   Some (map_option (map f) out, map_state f s)"
      unfolding loop_body_map step by simp
    have rest': "task_loop rms cfg sw (map_state f s) (map (map f) cs) =
                   (map (map f) outs1, map_option (map_state f) s1)"
      unfolding Cons.IH rest by simp
    have l: "task_loop (\<lambda>bs. rms (map f bs)) cfg sw st (c # cs) =
               ((case out of None \<Rightarrow> [] | Some u \<Rightarrow> [u]) @ outs1, s1)"
      by (simp only: task_loop.simps step rest prod.case option.case)
    have r: "task_loop rms cfg sw (map_state f st) (map (map f) (c # cs)) =
               ((case map_option (map f) out of None \<Rightarrow> [] | Some u \<Rightarrow> [u])
                  @ map (map f) outs1, map_option (map_state f) s1)"
      by (simp only: list.map task_loop.simps step' rest' prod.case option.case)
    show ?thesis
      unfolding l r by (cases out) simp_all
  qed
qed

lemma map_state_init: "map_state f init_state = init_state"
  by (simp add: map_state_def init_state_def)

lemma recording_task_loop_map:
  "recording_task_loop rms cfg sw (map (map f) chunks) =
     map (map f) (recording_task_loop (\<lambda>bs. rms (map f bs)) cfg sw chunks)"
proof -
  have "fst (task_loop rms cfg sw (map_state f init_state) (map (map f) chunks)) =
          map (map f) (fst (task_loop (\<lambda>bs. rms (map f bs)) cfg sw init_state chunks))"
    unfolding task_loop_map by simp
  then show ?thesis
    unfolding recording_task_loop_def map_state_init .
qed

lemma tag_chunks_fst: "map (map fst) (tag_chunks n cs) = cs"
  by (induction cs arbitrary: n) simp_all

lemma tag_chunks_snd: "map snd (concat (tag_chunks n cs)) = [n ..< n + length (concat cs)]"
proof (induction cs arbitrary: n)
  case Nil
  then show ?case by simp
next
  case (Cons c cs)
  have split: "[n ..< n + length c + length (concat cs)] =
          [n ..< n + length c] @ [n + length c ..< n + length c + length (concat cs)]"
    by (rule upt_add_eq_append) simp
  have "map snd (concat (tag_chunks n (c # cs))) =
          map snd (zip c [n ..< n + length c])
            @ map snd (concat (tag_chunks (n + length c) cs))"
    by simp
  also have "map snd (zip c [n ..< n + length c]) = [n ..< n + length c]"
    by (rule map_snd_zip) simp
  also have "map snd (concat (tag_chunks (n + length c) cs)) =
          [n + length c ..< n + length c + length (concat cs)]"
    by (rule Cons.IH)
  also have "[n ..< n + length c] @ [n + length c ..< n + length c + length (concat cs)] =
          [n ..< n + length (concat (c # cs))]"
    unfolding split [symmetric] by (simp add: add.assoc)
  finally show ?case .
qed

text \<open>
  C7. Label every byte of the stream with its position. The loudness is computed from
  the bytes alone, so the labelled run yields the utterances of the plain run, every byte
  with the position it was read from. Read one utterance after the other, these positions
  are a subsequence of the positions of the stream in increasing order: no position occurs
  twice, neither in two utterances nor within one, pre-roll included. This holds of the
  utterances yielded before an error of line 78 as well.
\<close>

theorem utterances_disjoint:
  "map (map fst)
     (recording_task_loop (\<lambda>bs. rms (map fst bs)) cfg sw (tag_chunks 0 chunks)) =
     recording_task_loop rms cfg sw chunks \<and>
   subseq
     (map snd (concat
        (recording_task_loop (\<lambda>bs. rms (map fst bs)) cfg sw (tag_chunks 0 chunks))))
     [0 ..< length (concat chunks)] \<and>
   distinct
     (map snd (concat
        (recording_task_loop (\<lambda>bs. rms (map fst bs)) cfg sw (tag_chunks 0 chunks))))"
proof -
  let ?outs = "recording_task_loop (\<lambda>bs. rms (map fst bs)) cfg sw (tag_chunks 0 chunks)"
  have "recording_task_loop rms cfg sw (map (map fst) (tag_chunks 0 chunks)) =
          map (map fst) ?outs"
    by (rule recording_task_loop_map)
  then have a: "map (map fst) ?outs = recording_task_loop rms cfg sw chunks"
    unfolding tag_chunks_fst by (rule sym)
  have "subseq (map snd (concat ?outs)) (map snd (concat (tag_chunks 0 chunks)))"
    by (intro subseq_map recording_task_loop_subseq)
  then have b: "subseq (map snd (concat ?outs)) [0 ..< length (concat chunks)]"
    unfolding tag_chunks_snd by simp
  have "distinct [0 ..< length (concat chunks)]" by simp
  with b have c: "distinct (map snd (concat ?outs))"
    by (rule subseq_distinct)
  show ?thesis by (intro conjI a b c)
qed

subsection \<open>The worker\<close>




lemma put_failed_prepend:
  assumes "\<forall>u. PutFailed u \<in> set t \<longrightarrow> (\<exists>pre. t = pre @ [ChunkRead, PutFailed u])"
    and "\<forall>u. PutFailed u \<notin> set p"
  shows "\<forall>u. PutFailed u \<in> set (p @ t) \<longrightarrow> (\<exists>pre. p @ t = pre @ [ChunkRead, PutFailed u])"
proof (intro allI impI)
  fix u assume "PutFailed u \<in> set (p @ t)"
  then have "PutFailed u \<in> set t" using assms(2) by simp
  with assms(1) obtain pre where "t = pre @ [ChunkRead, PutFailed u]" by blast
  then have "p @ t = (p @ pre) @ [ChunkRead, PutFailed u]" by simp
  then show "\<exists>pre. p @ t = pre @ [ChunkRead, PutFailed u]" ..
qed

lemma worker_session_put_failed:
  "worker_session rms cfg sw st es = (tr, ex) \<Longrightarrow>
   ((\<exists>u. PutFailed u \<in> set tr) \<longleftrightarrow> ex = QueueFull) \<and>
   (\<forall>u. PutFailed u \<in> set tr \<longrightarrow> (\<exists>pre. tr = pre @ [ChunkRead, PutFailed u]))"
proof (induction es arbitrary: st tr ex)
  case Nil
  then show ?case by simp
next
  case (Cons e es)
  show ?case
  proof (cases e)
    case Inactive
    with Cons.prems have "tr = []" "ex = Finished" by simp_all
    then show ?thesis by simp
  next
    case ReadCancelled
    with Cons.prems have "tr = [CancelDelivered]" "ex = CancelledInRead" by simp_all
    then show ?thesis by simp
  next
    case (ReadData in_data resume_set has_room)
    show ?thesis
    proof (cases "loop_body rms cfg sw st in_data")
      case None
      with Cons.prems ReadData have "tr = [ChunkRead]" "ex = AudioopError" by simp_all
      then show ?thesis by simp
    next
      case (Some r)
      obtain out st1 where r: "r = (out, st1)" by (cases r)
      have step: "loop_body rms cfg sw st in_data = Some (out, st1)"
        using Some r by simp
      obtain tr1 ex1 where rest: "worker_session rms cfg sw st1 es = (tr1, ex1)"
        by (cases "worker_session rms cfg sw st1 es")
      from Cons.IH [OF rest]
      have ih1: "(\<exists>u. PutFailed u \<in> set tr1) \<longleftrightarrow> ex1 = QueueFull"
        and ih2: "\<forall>u. PutFailed u \<in> set tr1 \<longrightarrow> (\<exists>pre. tr1 = pre @ [ChunkRead, PutFailed u])"
        by blast+
      show ?thesis
      proof (cases out)
        case None
        from Cons.prems have res: "tr = [ChunkRead] @ tr1" "ex = ex1"
          by (simp_all add: ReadData step None rest)
        have a: "(\<exists>u. PutFailed u \<in> set tr) \<longleftrightarrow> ex = QueueFull"
          using ih1 by (simp add: res)
        have b: "\<forall>u. PutFailed u \<in> set tr \<longrightarrow> (\<exists>pre. tr = pre @ [ChunkRead, PutFailed u])"
          unfolding res(1) by (rule put_failed_prepend [OF ih2]) simp
        from a b show ?thesis ..
      next
        case (Some frames)
        show ?thesis
        proof (cases "resume_set \<and> has_room")
          case True
          from Cons.prems True have res: "tr = [ChunkRead, Published frames] @ tr1" "ex = ex1"
            by (simp_all add: ReadData step Some rest)
          have a: "(\<exists>u. PutFailed u \<in> set tr) \<longleftrightarrow> ex = QueueFull"
            using ih1 by (simp add: res)
          have b: "\<forall>u. PutFailed u \<in> set tr \<longrightarrow> (\<exists>pre. tr = pre @ [ChunkRead, PutFailed u])"
            unfolding res(1) by (rule put_failed_prepend [OF ih2]) simp
          from a b show ?thesis ..
        next
          case False
          show ?thesis
          proof (cases resume_set)
            case True
            with False Cons.prems have res: "tr = [ChunkRead, PutFailed frames]" "ex = QueueFull"
              by (simp_all add: ReadData step Some)
            have "tr = [] @ [ChunkRead, PutFailed frames]" by (simp add: res)
            then show ?thesis using res by auto
          next
            case False
            with Cons.prems have "tr = [ChunkRead, Discarded frames]" "ex = Paused"
              by (simp_all add: ReadData step Some)
            then show ?thesis by simp
          qed
        qed
      qed
    qed
  qed
qed

lemma recording_worker_queue_full:
  "recording_worker rms cfg sw envs = (tr, oc) \<Longrightarrow>
   ((\<exists>u. PutFailed u \<in> set tr) \<longleftrightarrow> oc = RaisedQueueFull) \<and>
   (\<forall>u. PutFailed u \<in> set tr \<longrightarrow> (\<exists>pre. tr = pre @ [ChunkRead, PutFailed u]))"
proof (induction envs arbitrary: tr oc)
  case Nil
  then show ?case by auto
next
  case (Cons env envs)
  show ?case
  proof (cases "device_found env")
    case False
    with Cons.prems show ?thesis by auto
  next
    case True
    obtain t ex where ses: "worker_session rms cfg sw init_state (reads env) = (t, ex)"
      by (cases "worker_session rms cfg sw init_state (reads env)")
    from worker_session_put_failed [OF ses]
    have pf: "(\<exists>u. PutFailed u \<in> set t) \<longleftrightarrow> ex = QueueFull"
      and shape: "\<And>u. PutFailed u \<in> set t \<Longrightarrow> \<exists>pre. t = pre @ [ChunkRead, PutFailed u]"
      by blast+
    consider (cancel) "ex = CancelledInRead" | (full) "ex = QueueFull"
      | (audio) "ex = AudioopError"
      | (unfinished) "ex = Unfinished" | (ended) "ex = Finished \<or> ex = Paused"
      by (cases ex) auto
    then show ?thesis
    proof cases
      case cancel
      then have res: "tr = StreamOpened # t @ [StreamClosed]" "oc = RaisedCancelledError"
        using Cons.prems True by (simp_all add: ses)
      with pf cancel show ?thesis by simp
    next
      case full
      then have res: "tr = StreamOpened # t" "oc = RaisedQueueFull"
        using Cons.prems True by (simp_all add: ses)
      have a: "\<exists>u. PutFailed u \<in> set tr" using pf full by (simp add: res)
      have b: "\<forall>u. PutFailed u \<in> set tr \<longrightarrow> (\<exists>pre. tr = pre @ [ChunkRead, PutFailed u])"
      proof (intro allI impI)
        fix u assume "PutFailed u \<in> set tr"
        then have "PutFailed u \<in> set t" by (simp add: res)
        from shape [OF this] obtain pre where "t = pre @ [ChunkRead, PutFailed u]" ..
        then have "tr = (StreamOpened # pre) @ [ChunkRead, PutFailed u]" by (simp add: res)
        then show "\<exists>pre. tr = pre @ [ChunkRead, PutFailed u]" ..
      qed
      have a': "(\<exists>u. PutFailed u \<in> set tr) \<longleftrightarrow> oc = RaisedQueueFull"
        using a by (simp add: res(2))
      from a' b show ?thesis by (intro conjI) simp_all
    next
      case audio
      then have res: "tr = StreamOpened # t" "oc = RaisedAudioopError"
        using Cons.prems True by (simp_all add: ses)
      with pf audio show ?thesis by simp
    next
      case unfinished
      then have res: "tr = StreamOpened # t" "oc = StillRunning"
        using Cons.prems True by (simp_all add: ses)
      with pf unfinished show ?thesis by simp
    next
      case ended
      then have no_pf: "\<And>u. PutFailed u \<notin> set t" using pf by auto
      show ?thesis
      proof (cases "wait_cancelled env")
        case wc: True
        then have res: "tr = StreamOpened # t @ [StreamClosed, CancelDelivered]"
            "oc = RaisedCancelledError"
          using Cons.prems True ended by (auto simp: ses)
        with no_pf show ?thesis by simp
      next
        case wc: False
        obtain t1 oc1 where rest: "recording_worker rms cfg sw envs = (t1, oc1)"
          by (cases "recording_worker rms cfg sw envs")
        then have res: "tr = StreamOpened # t @ [StreamClosed] @ t1" "oc = oc1"
          using Cons.prems True ended wc by (auto simp: ses)
        from Cons.IH [OF rest]
        have ih1: "(\<exists>u. PutFailed u \<in> set t1) \<longleftrightarrow> oc1 = RaisedQueueFull"
          and ih2: "\<And>u. PutFailed u \<in> set t1 \<Longrightarrow> \<exists>pre. t1 = pre @ [ChunkRead, PutFailed u]"
          by blast+
        have a: "(\<exists>u. PutFailed u \<in> set tr) \<longleftrightarrow> oc = RaisedQueueFull"
          using ih1 no_pf by (simp add: res)
        have tr_eq: "tr = (StreamOpened # t @ [StreamClosed]) @ t1" by (simp add: res)
        have b: "\<forall>u. PutFailed u \<in> set tr \<longrightarrow> (\<exists>pre. tr = pre @ [ChunkRead, PutFailed u])"
          unfolding tr_eq
        proof (rule put_failed_prepend)
          show "\<forall>u. PutFailed u \<in> set t1 \<longrightarrow> (\<exists>pre. t1 = pre @ [ChunkRead, PutFailed u])"
            using ih2 by blast
          show "\<forall>u. PutFailed u \<notin> set (StreamOpened # t @ [StreamClosed])"
            using no_pf by simp
        qed
        from a b show ?thesis by (intro conjI)
      qed
    qed
  qed
qed

lemma loop_body_small:
  "interval_frame_count st = 0 \<Longrightarrow> interval_frames st = [] \<Longrightarrow> rms d sw \<noteq> None \<Longrightarrow>
   loop_body rms cfg_small sw st d = Some (tick cfg_small (loud rms cfg_small sw d) st d)"
proof -
  assume clean: "interval_frame_count st = 0" "interval_frames st = []"
    and ok: "rms d sw \<noteq> None"
  have "one_interval cfg_small [d]" by (rule one_interval_small)
  moreover have "readable rms sw [d]" using ok by (simp add: readable_def)
  ultimately have "task_loop rms cfg_small sw st [d] =
      (case tick cfg_small (loud rms cfg_small sw (concat [d])) st (concat [d]) of
         (out, st1) \<Rightarrow> ((case out of None \<Rightarrow> [] | Some u \<Rightarrow> [u]), Some st1))"
    using clean by (rule task_loop_one_interval)
  then show ?thesis
    by (cases "loop_body rms cfg_small sw st d")
       (auto split: prod.splits option.splits)
qed

lemmas small_worker = loop_body_small rms_loud_frame rms_quiet_frame small_run



text \<open>
  C5 (as amended). When \<^verbatim>\<open>put_nowait\<close> fails, nothing catches \<^verbatim>\<open>QueueFull\<close>: the worker
  ends by raising \<^verbatim>\<open>QueueFull\<close> to its caller, and it ends that way only after a failed
  publish; after the failed publish the worker reads no chunk, publishes nothing and opens
  no stream (no retry, nothing requeued, no further utterance).
\<close>

theorem queue_full_ends_worker:
  assumes "recording_worker rms cfg sw envs = (tr, oc)"
  shows "((\<exists>u. PutFailed u \<in> set tr) \<longleftrightarrow> oc = RaisedQueueFull) \<and>
         (\<forall>u. PutFailed u \<in> set tr \<longrightarrow>
            (\<exists>pre post. tr = pre @ [ChunkRead, PutFailed u] @ post \<and>
               set post \<subseteq> {StreamClosed}))"
proof -
  from recording_worker_queue_full [OF assms]
  have a: "(\<exists>u. PutFailed u \<in> set tr) \<longleftrightarrow> oc = RaisedQueueFull"
    and b: "\<And>u. PutFailed u \<in> set tr \<Longrightarrow> \<exists>pre. tr = pre @ [ChunkRead, PutFailed u]"
    by blast+
  have "\<exists>pre post. tr = pre @ [ChunkRead, PutFailed u] @ post \<and> set post \<subseteq> {StreamClosed}"
    if "PutFailed u \<in> set tr" for u
  proof -
    from b [OF that] obtain pre where "tr = pre @ [ChunkRead, PutFailed u]" ..
    then have "tr = pre @ [ChunkRead, PutFailed u] @ [] \<and> set [] \<subseteq> {StreamClosed :: 'a event}"
      by simp
    then show ?thesis by blast
  qed
  with a show ?thesis by blast
qed

lemma run_queue_full:
  "recording_worker audioop_rms cfg_small 2
     [\<lparr>device_found = True,
       reads = [ReadData loud_frame True True, ReadData quiet_frame True True,
                ReadData quiet_frame True False, ReadData loud_frame True True],
       wait_cancelled = False\<rparr>,
      \<lparr>device_found = True, reads = [ReadData loud_frame True True],
       wait_cancelled = False\<rparr>] =
     ([StreamOpened, ChunkRead, ChunkRead, ChunkRead,
       PutFailed (loud_frame @ quiet_frame @ quiet_frame)], RaisedQueueFull)"
  by (simp add: small_worker)

theorem queue_full_ends_worker_witness:
  "recording_worker audioop_rms cfg_small 2
     [\<lparr>device_found = True,
       reads = [ReadData loud_frame True True, ReadData quiet_frame True True,
                ReadData quiet_frame True False, ReadData loud_frame True True],
       wait_cancelled = False\<rparr>,
      \<lparr>device_found = True, reads = [ReadData loud_frame True True],
       wait_cancelled = False\<rparr>] =
     ([StreamOpened, ChunkRead, ChunkRead, ChunkRead,
       PutFailed (loud_frame @ quiet_frame @ quiet_frame)], RaisedQueueFull) \<and>
   (\<exists>pre post.
      [StreamOpened, ChunkRead, ChunkRead, ChunkRead,
       PutFailed (loud_frame @ quiet_frame @ quiet_frame)] =
        pre @ [ChunkRead, PutFailed (loud_frame @ quiet_frame @ quiet_frame)] @ post \<and>
      set post \<subseteq> {StreamClosed})"
  using queue_full_ends_worker [OF run_queue_full] run_queue_full by simp

text \<open>
  C5 as stated fails: the queue has no room for the utterance yielded on the third chunk;
  the worker does not go on to the fourth chunk or to a second session, it ends by raising
  \<^verbatim>\<open>QueueFull\<close>.
\<close>

theorem queue_full_worker_stops:
  "snd (recording_worker audioop_rms cfg_small 2
     [\<lparr>device_found = True,
       reads = [ReadData loud_frame True True, ReadData quiet_frame True True,
                ReadData quiet_frame True False, ReadData loud_frame True True],
       wait_cancelled = False\<rparr>,
      \<lparr>device_found = True, reads = [ReadData loud_frame True True],
       wait_cancelled = False\<rparr>]) = RaisedQueueFull \<and>
   fst (recording_worker audioop_rms cfg_small 2
     [\<lparr>device_found = True,
       reads = [ReadData loud_frame True True, ReadData quiet_frame True True,
                ReadData quiet_frame True False, ReadData loud_frame True True],
       wait_cancelled = False\<rparr>,
      \<lparr>device_found = True, reads = [ReadData loud_frame True True],
       wait_cancelled = False\<rparr>]) =
     [StreamOpened, ChunkRead, ChunkRead, ChunkRead,
      PutFailed (loud_frame @ quiet_frame @ quiet_frame)]"
  unfolding run_queue_full by simp

subsection \<open>The resume gate\<close>








end
